theory Spec2Isabelle
  imports Complex_Main "HOL-Library.Char_ord" "HOL-Library.List_Lexorder"
begin

section \<open>Redactor\<close>

text \<open>
  The store package compiles one regular expression,
  \<^verbatim>\<open>(?is)<private>.*?</private>\<close>, and \<^verbatim>\<open>stripPrivateTags\<close> replaces every match by
  the token \<^verbatim>\<open>[REDACTED]\<close> and trims surrounding white space.  Go strings are byte
  sequences, modelled as \<^typ>\<open>string\<close>.  The flag \<^verbatim>\<open>i\<close> folds the case of the seven
  letters of the tag name, whose only case variants are the ASCII capitals; the
  flag \<^verbatim>\<open>s\<close> lets the dot match every byte, so the matcher works bytewise.
\<close>

definition toLowerASCII :: "char \<Rightarrow> char" where
  "toLowerASCII c =
     (let n = of_char c :: nat in if 65 \<le> n \<and> n \<le> 90 then char_of (n + 32) else c)"

definition openTag :: string where
  "openTag = ''<private>''"

definition closeTag :: string where
  "closeTag = ''</private>''"

definition REDACTED :: string where
  "REDACTED = ''[REDACTED]''"

text \<open>\<open>foldPrefix p s\<close>: the literal \<open>p\<close> (in lower case) matches at the start of \<open>s\<close>,
  case folded.\<close>

definition foldPrefix :: "string \<Rightarrow> string \<Rightarrow> bool" where
  "foldPrefix p s = (length p \<le> length s \<and> map toLowerASCII (take (length p) s) = p)"

text \<open>\<open>findClose s\<close>: the text after the first closing tag in \<open>s\<close>, if there is one.  The
  lazy \<^verbatim>\<open>.*?\<close> ends a match at the first closing tag it can reach.\<close>

fun findClose :: "string \<Rightarrow> string option" where
  "findClose [] = None"
| "findClose (c # cs) =
     (if foldPrefix closeTag (c # cs) then Some (drop (length closeTag) (c # cs))
      else findClose cs)"

lemma findClose_length: "findClose s = Some r \<Longrightarrow> length r < length s"
  by (induction s) (auto simp: closeTag_def split: if_splits)

text \<open>\<^verbatim>\<open>privateTagRegex.ReplaceAllString(s, "[REDACTED]")\<close>: scan from the left; at the
  leftmost position where a match starts, emit the token and go on after the match;
  a byte where no match starts is copied.\<close>

function replaceAllPrivate :: "string \<Rightarrow> string" where
  "replaceAllPrivate [] = []"
| "replaceAllPrivate (c # cs) =
     (if foldPrefix openTag (c # cs) then
        (case findClose (drop (length openTag) (c # cs)) of
           Some rest \<Rightarrow> REDACTED @ replaceAllPrivate rest
         | None \<Rightarrow> c # replaceAllPrivate cs)
      else c # replaceAllPrivate cs)"
  by pat_completeness auto
termination
proof (relation "measure length")
  show "wf (measure length)" by simp
next
  fix c cs rest
  assume "findClose (drop (length openTag) (c # cs)) = Some rest"
  then have "length rest < length (drop (length openTag) (c # cs))"
    by (rule findClose_length)
  then show "(rest, c # cs) \<in> measure length" by simp
qed simp_all

text \<open>\<^verbatim>\<open>privateTagRegex.MatchString\<close>: a match starts somewhere in the text.\<close>

fun matchPrivate :: "string \<Rightarrow> bool" where
  "matchPrivate [] = False"
| "matchPrivate (c # cs) =
     ((foldPrefix openTag (c # cs) \<and> findClose (drop (length openTag) (c # cs)) \<noteq> None)
      \<or> matchPrivate cs)"

text \<open>
  \<^verbatim>\<open>strings.TrimSpace\<close> removes leading and trailing white space as Unicode defines it.
  On the bytes of a string the white-space code points are the six ASCII bytes and the
  UTF-8 encodings of U+0085, U+00A0, U+1680, U+2000 to U+200A, U+2028, U+2029, U+202F,
  U+205F and U+3000.  A byte sequence that is not one of these encodings decodes to a
  rune that is not white space, and trimming stops there.
\<close>

definition spaceRunes :: "string list" where
  "spaceRunes =
     [[CHR 0x09], [CHR 0x0A], [CHR 0x0B], [CHR 0x0C], [CHR 0x0D], [CHR 0x20],
      [CHR 0xC2, CHR 0x85], [CHR 0xC2, CHR 0xA0],
      [CHR 0xE1, CHR 0x9A, CHR 0x80],
      [CHR 0xE2, CHR 0x80, CHR 0x80], [CHR 0xE2, CHR 0x80, CHR 0x81],
      [CHR 0xE2, CHR 0x80, CHR 0x82], [CHR 0xE2, CHR 0x80, CHR 0x83],
      [CHR 0xE2, CHR 0x80, CHR 0x84], [CHR 0xE2, CHR 0x80, CHR 0x85],
      [CHR 0xE2, CHR 0x80, CHR 0x86], [CHR 0xE2, CHR 0x80, CHR 0x87],
      [CHR 0xE2, CHR 0x80, CHR 0x88], [CHR 0xE2, CHR 0x80, CHR 0x89],
      [CHR 0xE2, CHR 0x80, CHR 0x8A],
      [CHR 0xE2, CHR 0x80, CHR 0xA8], [CHR 0xE2, CHR 0x80, CHR 0xA9],
      [CHR 0xE2, CHR 0x80, CHR 0xAF], [CHR 0xE2, CHR 0x81, CHR 0x9F],
      [CHR 0xE3, CHR 0x80, CHR 0x80]]"

text \<open>\<open>leadingRune ws s\<close>: the encoding in \<open>ws\<close> that \<open>s\<close> starts with, if any.\<close>

definition leadingRune :: "string list \<Rightarrow> string \<Rightarrow> string option" where
  "leadingRune ws s = find (\<lambda>w. w \<noteq> [] \<and> take (length w) s = w) ws"

lemma leadingRune_shorter:
  "leadingRune ws s = Some w \<Longrightarrow> length (drop (length w) s) < length s"
proof -
  assume "leadingRune ws s = Some w"
  then have w: "w \<noteq> []" "take (length w) s = w"
    by (auto simp: leadingRune_def find_Some_iff)
  then have "s \<noteq> []" by auto
  with w show ?thesis by simp
qed

function trimLeftRunes :: "string list \<Rightarrow> string \<Rightarrow> string" where
  "trimLeftRunes ws s =
     (case leadingRune ws s of
        None \<Rightarrow> s
      | Some w \<Rightarrow> trimLeftRunes ws (drop (length w) s))"
  by pat_completeness auto
termination
  by (relation "measure (\<lambda>(ws, s). length s)") (auto dest: leadingRune_shorter)

declare trimLeftRunes.simps [simp del]

definition trimRightRunes :: "string list \<Rightarrow> string \<Rightarrow> string" where
  "trimRightRunes ws s = rev (trimLeftRunes (map rev ws) (rev s))"

definition TrimSpace :: "string \<Rightarrow> string" where
  "TrimSpace s = trimRightRunes spaceRunes (trimLeftRunes spaceRunes s)"

definition stripPrivateTags :: "string \<Rightarrow> string" where
  "stripPrivateTags s = TrimSpace (replaceAllPrivate s)"

section \<open>Data model\<close>

text \<open>The structs of the store package.  A Go \<^verbatim>\<open>*string\<close> that holds a nullable column
  is a \<^typ>\<open>string option\<close>; \<^verbatim>\<open>int\<close> and \<^verbatim>\<open>int64\<close> are \<^typ>\<open>int\<close> (no count or
  row id of the store comes near the 64-bit range).\<close>

record Session =
  sess_ID :: string
  sess_Project :: string
  sess_Directory :: string
  sess_StartedAt :: string
  sess_EndedAt :: "string option"
  sess_Summary :: "string option"

record Observation =
  obs_ID :: int
  obs_SessionID :: string
  obs_Type :: string
  obs_Title :: string
  obs_Content :: string
  obs_ToolName :: "string option"
  obs_Project :: "string option"
  obs_CreatedAt :: string

record SearchResult =
  sr_Observation :: Observation
  sr_Rank :: real

record SessionSummary =
  ss_ID :: string
  ss_Project :: string
  ss_StartedAt :: string
  ss_EndedAt :: "string option"
  ss_Summary :: "string option"
  ss_ObservationCount :: int

record Stats =
  TotalSessions :: int
  TotalObservations :: int
  TotalPrompts :: int
  Projects :: "string list"

record TimelineEntry =
  te_ID :: int
  te_SessionID :: string
  te_Type :: string
  te_Title :: string
  te_Content :: string
  te_ToolName :: "string option"
  te_Project :: "string option"
  te_CreatedAt :: string
  te_IsFocus :: bool

record TimelineResult =
  Focus :: Observation
  Before :: "TimelineEntry list"
  After :: "TimelineEntry list"
  SessionInfo :: "Session option"
  TotalInRange :: int

record SearchOptions =
  so_Type :: string
  so_Project :: string
  so_Limit :: int

record AddObservationParams =
  aop_SessionID :: string
  aop_Type :: string
  aop_Title :: string
  aop_Content :: string
  aop_ToolName :: string
  aop_Project :: string

record Prompt =
  pr_ID :: int
  pr_SessionID :: string
  pr_Content :: string
  pr_Project :: string
  pr_CreatedAt :: string

record AddPromptParams =
  app_SessionID :: string
  app_Content :: string
  app_Project :: string

record ExportData =
  Version :: string
  ExportedAt :: string
  ed_Sessions :: "Session list"
  ed_Observations :: "Observation list"
  ed_Prompts :: "Prompt list"

record ImportResult =
  SessionsImported :: int
  ObservationsImported :: int
  PromptsImported :: int

record Config =
  DataDir :: string
  MaxObservationLength :: int
  MaxContextResults :: int
  MaxSearchResults :: int

text \<open>\<^verbatim>\<open>DefaultConfig\<close>; the data directory it derives from the user's home directory is
  the parameter.\<close>

definition DefaultConfig :: "string \<Rightarrow> Config" where
  "DefaultConfig dir =
     \<lparr>DataDir = dir, MaxObservationLength = 2000, MaxContextResults = 20,
      MaxSearchResults = 20\<rparr>"

text \<open>A row of \<^verbatim>\<open>user_prompts\<close>: the column \<^verbatim>\<open>project\<close> is nullable in the schema,
  while the struct \<^verbatim>\<open>Prompt\<close> holds a plain string.\<close>

record PromptRow =
  prow_ID :: int
  prow_SessionID :: string
  prow_Content :: string
  prow_Project :: "string option"
  prow_CreatedAt :: string

text \<open>The database file: the four tables of \<^verbatim>\<open>migrate\<close>, each a list of rows in
  insertion order, and the two \<^verbatim>\<open>AUTOINCREMENT\<close> counters, which hold the largest row
  id ever handed out.\<close>

record DB =
  sessions :: "Session list"
  observations :: "Observation list"
  user_prompts :: "PromptRow list"
  sync_chunks :: "(string \<times> string) list"
  observations_seq :: int
  user_prompts_seq :: int

record Store =
  db :: DB
  cfg :: Config

definition emptyDB :: DB where
  "emptyDB =
     \<lparr>sessions = [], observations = [], user_prompts = [], sync_chunks = [],
      observations_seq = 0, user_prompts_seq = 0\<rparr>"

text \<open>The store that \<^verbatim>\<open>New\<close> returns on a data directory that holds no database yet.\<close>

definition freshStore :: "Config \<Rightarrow> Store" where
  "freshStore c = \<lparr>db = emptyDB, cfg = c\<rparr>"

subsection \<open>Errors and the database engine\<close>

text \<open>
  \<^item> \<open>ErrNoRows\<close> is \<^verbatim>\<open>sql.ErrNoRows\<close>;
  \<^item> \<open>ErrStorage m\<close> is an error the database returns for a statement;
  \<^item> \<open>ErrScanNull\<close> is the error of \<^verbatim>\<open>Scan\<close> when it has to store NULL in a Go string;
  \<^item> \<open>Wrap msg e\<close> is \<^verbatim>\<open>fmt.Errorf(msg + ": %w", e)\<close>;
  \<^item> \<open>Panic m\<close> is a run-time panic.
\<close>

datatype error =
    ErrNoRows
  | ErrStorage string
  | ErrScanNull
  | Wrap string error
  | Panic string

text \<open>
  The engine is SQLite behind \<^verbatim>\<open>database/sql\<close>.  Whether a statement fails (disk, lock
  time-out, a constraint the connection enforces, a malformed match expression) is not
  decided by the store: a schedule says for the \<open>k\<close>-th statement that an operation
  issues, counted from 0, whether the engine rejects it and with which message.  A
  rejected statement changes nothing.
\<close>

type_synonym faults = "nat \<Rightarrow> string option"

definition noFaults :: faults where
  "noFaults = (\<lambda>k. None)"

definition shiftFaults :: "nat \<Rightarrow> faults \<Rightarrow> faults" where
  "shiftFaults n flt = (\<lambda>k. flt (k + n))"

definition stmt :: "faults \<Rightarrow> nat \<Rightarrow> 'a \<Rightarrow> error + 'a" where
  "stmt flt k v = (case flt k of Some m \<Rightarrow> Inl (ErrStorage m) | None \<Rightarrow> Inr v)"

text \<open>The full-text index is SQLite's FTS5: which rows a match expression selects and the
  rank it gives them (over the indexed table) are parameters.\<close>

record FTS =
  obsMatch :: "string \<Rightarrow> Observation \<Rightarrow> bool"
  obsRank :: "Observation list \<Rightarrow> string \<Rightarrow> Observation \<Rightarrow> real"
  promptMatch :: "string \<Rightarrow> PromptRow \<Rightarrow> bool"
  promptRank :: "PromptRow list \<Rightarrow> string \<Rightarrow> PromptRow \<Rightarrow> real"

text \<open>\<^verbatim>\<open>ORDER BY\<close> and \<^verbatim>\<open>LIMIT\<close>.  SQL leaves the order of rows with equal keys open;
  the model keeps them in table order (ascending) or reversed table order (descending).
  The theorems below use of the result only its rows and its length, except for the
  queries of \<^verbatim>\<open>Timeline\<close>, whose key is the row id, which no two rows share.  A
  negative \<^verbatim>\<open>LIMIT\<close> is no limit.\<close>

definition orderByAsc :: "('a \<Rightarrow> 'k::linorder) \<Rightarrow> 'a list \<Rightarrow> 'a list" where
  "orderByAsc key rows = sort_key key rows"

definition orderByDesc :: "('a \<Rightarrow> 'k::linorder) \<Rightarrow> 'a list \<Rightarrow> 'a list" where
  "orderByDesc key rows = rev (sort_key key rows)"

definition sqlLimit :: "int \<Rightarrow> 'a list \<Rightarrow> 'a list" where
  "sqlLimit n rows = (if n < 0 then rows else take (nat n) rows)"

section \<open>Helpers\<close>

definition nullableString :: "string \<Rightarrow> string option" where
  "nullableString s = (if s = [] then None else Some s)"

text \<open>\<^verbatim>\<open>truncate\<close> is only called with the bounds 200 and 300.\<close>

definition truncate :: "string \<Rightarrow> int \<Rightarrow> string" where
  "truncate s mx = (if int (length s) \<le> mx then s else take (nat mx) s @ ''...'')"

text \<open>The verb \<^verbatim>\<open>%d\<close> of \<^verbatim>\<open>fmt\<close>: decimal digits, with a sign for a negative number.\<close>

function natToDec :: "nat \<Rightarrow> string" where
  "natToDec n =
     (if n < 10 then [char_of (48 + n)]
      else natToDec (n div 10) @ [char_of (48 + n mod 10)])"
  by pat_completeness auto
termination
  by (relation "measure id") auto

declare natToDec.simps [simp del]

definition intToDec :: "int \<Rightarrow> string" where
  "intToDec i = (if i < 0 then CHR ''-'' # natToDec (nat (- i)) else natToDec (nat i))"

text \<open>\<^verbatim>\<open>sanitizeFTS\<close>: \<^verbatim>\<open>strings.Fields\<close> splits around runs of white space, each word loses
  the double quotes around it and is quoted again, and the words are joined by one
  blank.\<close>

function fieldsFrom :: "string \<Rightarrow> string \<Rightarrow> string list" where
  "fieldsFrom cur [] = (if cur = [] then [] else [cur])"
| "fieldsFrom cur (c # cs) =
     (case leadingRune spaceRunes (c # cs) of
        Some w \<Rightarrow> (if cur = [] then [] else [cur]) @ fieldsFrom [] (drop (length w) (c # cs))
      | None \<Rightarrow> fieldsFrom (cur @ [c]) cs)"
  by pat_completeness auto
termination
  by (relation "measure (\<lambda>(cur, s). length s)") (auto dest: leadingRune_shorter)

definition Fields :: "string \<Rightarrow> string list" where
  "Fields s = fieldsFrom [] s"

definition trimQuotes :: "string \<Rightarrow> string" where
  "trimQuotes w =
     rev (dropWhile (\<lambda>c. c = CHR 0x22) (rev (dropWhile (\<lambda>c. c = CHR 0x22) w)))"

fun joinWith :: "string \<Rightarrow> string list \<Rightarrow> string" where
  "joinWith sep [] = []"
| "joinWith sep [w] = w"
| "joinWith sep (w # v # ws) = w @ sep @ joinWith sep (v # ws)"

definition sanitizeFTS :: "string \<Rightarrow> string" where
  "sanitizeFTS query =
     joinWith '' '' (map (\<lambda>w. [CHR 0x22] @ trimQuotes w @ [CHR 0x22]) (Fields query))"

fun ClassifyTool :: "string \<Rightarrow> string" where
  "ClassifyTool toolName =
     (if toolName \<in> {''write'', ''edit'', ''patch''} then ''file_change''
      else if toolName = ''bash'' then ''command''
      else if toolName \<in> {''read'', ''view''} then ''file_read''
      else if toolName \<in> {''grep'', ''glob'', ''ls''} then ''search''
      else ''tool_use'')"

section \<open>Sessions\<close>

text \<open>\<^verbatim>\<open>INSERT OR IGNORE INTO sessions\<close>: a row whose id is already in the table is skipped;
  the second component is the number of rows affected.\<close>

definition insertOrIgnoreSession :: "Session \<Rightarrow> DB \<Rightarrow> DB \<times> int" where
  "insertOrIgnoreSession x d =
     (if list_ex (\<lambda>y. sess_ID y = sess_ID x) (sessions d) then (d, 0)
      else (d\<lparr>sessions := sessions d @ [x]\<rparr>, 1))"

text \<open>In every operation \<open>flt\<close> is the schedule of the engine; \<open>now\<close> is what
  \<^verbatim>\<open>datetime('now')\<close> gives when the statement runs.\<close>

definition CreateSession ::
  "faults \<Rightarrow> string \<Rightarrow> Store \<Rightarrow> string \<Rightarrow> string \<Rightarrow> string \<Rightarrow> error option \<times> Store" where
  "CreateSession flt now s ident project directory =
     (case flt 0 of
        Some m \<Rightarrow> (Some (ErrStorage m), s)
      | None \<Rightarrow>
          (None, s\<lparr>db := fst (insertOrIgnoreSession
             \<lparr>sess_ID = ident, sess_Project = project, sess_Directory = directory,
              sess_StartedAt = now, sess_EndedAt = None, sess_Summary = None\<rparr> (db s))\<rparr>))"

text \<open>\<^verbatim>\<open>UPDATE sessions SET ended_at = datetime('now'), summary = ? WHERE id = ?\<close>\<close>

definition updateSessionEnd :: "string \<Rightarrow> string option \<Rightarrow> string \<Rightarrow> DB \<Rightarrow> DB" where
  "updateSessionEnd now summary ident d =
     d\<lparr>sessions :=
         map (\<lambda>x. if sess_ID x = ident
                   then x\<lparr>sess_EndedAt := Some now, sess_Summary := summary\<rparr> else x)
           (sessions d)\<rparr>"

definition EndSession ::
  "faults \<Rightarrow> string \<Rightarrow> Store \<Rightarrow> string \<Rightarrow> string \<Rightarrow> error option \<times> Store" where
  "EndSession flt now s ident summary =
     (case flt 0 of
        Some m \<Rightarrow> (Some (ErrStorage m), s)
      | None \<Rightarrow> (None, s\<lparr>db := updateSessionEnd now (nullableString summary) ident (db s)\<rparr>))"

text \<open>\<^verbatim>\<open>QueryRow\<close> followed by \<^verbatim>\<open>Scan\<close>: the error of the statement, or \<^verbatim>\<open>sql.ErrNoRows\<close> when
  no row is selected, or the first row.\<close>

definition queryRow :: "faults \<Rightarrow> nat \<Rightarrow> 'a list \<Rightarrow> error + 'a" where
  "queryRow flt k rows =
     (case flt k of
        Some m \<Rightarrow> Inl (ErrStorage m)
      | None \<Rightarrow> (case rows of [] \<Rightarrow> Inl ErrNoRows | r # _ \<Rightarrow> Inr r))"

definition GetSession :: "faults \<Rightarrow> Store \<Rightarrow> string \<Rightarrow> error + Session" where
  "GetSession flt s ident = queryRow flt 0 (filter (\<lambda>x. sess_ID x = ident) (sessions (db s)))"

text \<open>The query of \<^verbatim>\<open>RecentSessions\<close> and \<^verbatim>\<open>AllSessions\<close>: sessions left-joined with
  their observations and grouped by session, of one project unless the project is
  empty, latest start first.\<close>

definition sessionSummary :: "DB \<Rightarrow> Session \<Rightarrow> SessionSummary" where
  "sessionSummary d x =
     \<lparr>ss_ID = sess_ID x, ss_Project = sess_Project x, ss_StartedAt = sess_StartedAt x,
      ss_EndedAt = sess_EndedAt x, ss_Summary = sess_Summary x,
      ss_ObservationCount =
        int (length (filter (\<lambda>ob. obs_SessionID ob = sess_ID x) (observations d)))\<rparr>"

definition selectSessionSummaries :: "DB \<Rightarrow> string \<Rightarrow> int \<Rightarrow> SessionSummary list" where
  "selectSessionSummaries d project limit =
     sqlLimit limit (orderByDesc ss_StartedAt
       (map (sessionSummary d)
          (filter (\<lambda>x. project = [] \<or> sess_Project x = project) (sessions d))))"

definition RecentSessions ::
  "faults \<Rightarrow> Store \<Rightarrow> string \<Rightarrow> int \<Rightarrow> error + SessionSummary list" where
  "RecentSessions flt s project limit =
     stmt flt 0 (selectSessionSummaries (db s) project (if limit \<le> 0 then 5 else limit))"

definition AllSessions ::
  "faults \<Rightarrow> Store \<Rightarrow> string \<Rightarrow> int \<Rightarrow> error + SessionSummary list" where
  "AllSessions flt s project limit =
     stmt flt 0 (selectSessionSummaries (db s) project (if limit \<le> 0 then 50 else limit))"

section \<open>Observations\<close>

definition selectRecentObservations :: "DB \<Rightarrow> string \<Rightarrow> int \<Rightarrow> Observation list" where
  "selectRecentObservations d project limit =
     sqlLimit limit (orderByDesc obs_CreatedAt
       (filter (\<lambda>ob. project = [] \<or> obs_Project ob = Some project) (observations d)))"

definition AllObservations ::
  "faults \<Rightarrow> Store \<Rightarrow> string \<Rightarrow> int \<Rightarrow> error + Observation list" where
  "AllObservations flt s project limit =
     stmt flt 0 (selectRecentObservations (db s) project
       (if limit \<le> 0 then MaxContextResults (cfg s) else limit))"

definition SessionObservations ::
  "faults \<Rightarrow> Store \<Rightarrow> string \<Rightarrow> int \<Rightarrow> error + Observation list" where
  "SessionObservations flt s sessionID limit =
     stmt flt 0 (sqlLimit (if limit \<le> 0 then 200 else limit)
       (orderByAsc obs_CreatedAt
          (filter (\<lambda>ob. obs_SessionID ob = sessionID) (observations (db s)))))"

text \<open>\<^verbatim>\<open>INSERT INTO observations\<close>: the new row gets the next id of the counter.\<close>

definition insertObservation :: "Observation \<Rightarrow> DB \<Rightarrow> int \<times> DB" where
  "insertObservation row d =
     (let ident = observations_seq d + 1
      in (ident, d\<lparr>observations := observations d @ [row\<lparr>obs_ID := ident\<rparr>],
                observations_seq := ident\<rparr>))"

text \<open>The slice \<^verbatim>\<open>content[:max]\<close> panics when \<^verbatim>\<open>max\<close> is negative.\<close>

definition truncateContent :: "int \<Rightarrow> string \<Rightarrow> error + string" where
  "truncateContent mx content =
     (if int (length content) > mx then
        (if mx < 0 then Inl (Panic ''slice bounds out of range'')
         else Inr (take (nat mx) content @ ''... [truncated]''))
      else Inr content)"

definition AddObservation ::
  "faults \<Rightarrow> string \<Rightarrow> Store \<Rightarrow> AddObservationParams \<Rightarrow> (error + int) \<times> Store" where
  "AddObservation flt now s p =
     (let title = stripPrivateTags (aop_Title p) in
      case truncateContent (MaxObservationLength (cfg s)) (stripPrivateTags (aop_Content p)) of
        Inl e \<Rightarrow> (Inl e, s)
      | Inr content \<Rightarrow>
          (case flt 0 of
             Some m \<Rightarrow> (Inl (ErrStorage m), s)
           | None \<Rightarrow>
               (let (ident, d) = insertObservation
                      \<lparr>obs_ID = 0, obs_SessionID = aop_SessionID p, obs_Type = aop_Type p,
                       obs_Title = title, obs_Content = content,
                       obs_ToolName = nullableString (aop_ToolName p),
                       obs_Project = nullableString (aop_Project p),
                       obs_CreatedAt = now\<rparr> (db s)
                in (Inr ident, s\<lparr>db := d\<rparr>))))"

definition RecentObservations ::
  "faults \<Rightarrow> Store \<Rightarrow> string \<Rightarrow> int \<Rightarrow> error + Observation list" where
  "RecentObservations flt s project limit =
     stmt flt 0 (selectRecentObservations (db s) project
       (if limit \<le> 0 then MaxContextResults (cfg s) else limit))"

definition GetObservation :: "faults \<Rightarrow> Store \<Rightarrow> int \<Rightarrow> error + Observation" where
  "GetObservation flt s ident =
     queryRow flt 0 (filter (\<lambda>ob. obs_ID ob = ident) (observations (db s)))"

section \<open>User prompts\<close>

definition insertPrompt :: "PromptRow \<Rightarrow> DB \<Rightarrow> int \<times> DB" where
  "insertPrompt row d =
     (let ident = user_prompts_seq d + 1
      in (ident, d\<lparr>user_prompts := user_prompts d @ [row\<lparr>prow_ID := ident\<rparr>],
                   user_prompts_seq := ident\<rparr>))"

definition AddPrompt ::
  "faults \<Rightarrow> string \<Rightarrow> Store \<Rightarrow> AddPromptParams \<Rightarrow> (error + int) \<times> Store" where
  "AddPrompt flt now s p =
     (case truncateContent (MaxObservationLength (cfg s)) (stripPrivateTags (app_Content p)) of
        Inl e \<Rightarrow> (Inl e, s)
      | Inr content \<Rightarrow>
          (case flt 0 of
             Some m \<Rightarrow> (Inl (ErrStorage m), s)
           | None \<Rightarrow>
               (let (ident, d) = insertPrompt
                      \<lparr>prow_ID = 0, prow_SessionID = app_SessionID p, prow_Content = content,
                       prow_Project = nullableString (app_Project p),
                       prow_CreatedAt = now\<rparr> (db s)
                in (Inr ident, s\<lparr>db := d\<rparr>))))"

text \<open>\<^verbatim>\<open>rows.Scan\<close> into a \<^verbatim>\<open>Prompt\<close>: the field \<^verbatim>\<open>Project\<close> is a Go string, and
  \<^verbatim>\<open>database/sql\<close> refuses to store NULL in a string.  The loop over the rows returns
  at the first row that fails.\<close>

definition scanPrompt :: "PromptRow \<Rightarrow> error + Prompt" where
  "scanPrompt r =
     (case prow_Project r of
        None \<Rightarrow> Inl ErrScanNull
      | Some p \<Rightarrow>
          Inr \<lparr>pr_ID = prow_ID r, pr_SessionID = prow_SessionID r,
               pr_Content = prow_Content r, pr_Project = p,
               pr_CreatedAt = prow_CreatedAt r\<rparr>)"

fun scanPrompts :: "PromptRow list \<Rightarrow> error + Prompt list" where
  "scanPrompts [] = Inr []"
| "scanPrompts (r # rs) =
     (case scanPrompt r of
        Inl e \<Rightarrow> Inl e
      | Inr p \<Rightarrow> (case scanPrompts rs of Inl e \<Rightarrow> Inl e | Inr ps \<Rightarrow> Inr (p # ps)))"

definition RecentPrompts ::
  "faults \<Rightarrow> Store \<Rightarrow> string \<Rightarrow> int \<Rightarrow> error + Prompt list" where
  "RecentPrompts flt s project limit =
     (case flt 0 of
        Some m \<Rightarrow> Inl (ErrStorage m)
      | None \<Rightarrow>
          scanPrompts (sqlLimit (if limit \<le> 0 then 20 else limit)
            (orderByDesc prow_CreatedAt
               (filter (\<lambda>r. project = [] \<or> prow_Project r = Some project)
                  (user_prompts (db s))))))"

definition SearchPrompts ::
  "FTS \<Rightarrow> faults \<Rightarrow> Store \<Rightarrow> string \<Rightarrow> string \<Rightarrow> int \<Rightarrow> error + Prompt list" where
  "SearchPrompts fts flt s query project limit =
     (let ftsQuery = sanitizeFTS query in
      case flt 0 of
        Some m \<Rightarrow> Inl (Wrap ''search prompts'' (ErrStorage m))
      | None \<Rightarrow>
          scanPrompts (sqlLimit (if limit \<le> 0 then 10 else limit)
            (orderByAsc (promptRank fts (user_prompts (db s)) ftsQuery)
               (filter (\<lambda>r. promptMatch fts ftsQuery r \<and>
                             (project = [] \<or> prow_Project r = Some project))
                  (user_prompts (db s))))))"

section \<open>Timeline\<close>

definition toEntry :: "Observation \<Rightarrow> TimelineEntry" where
  "toEntry ob =
     \<lparr>te_ID = obs_ID ob, te_SessionID = obs_SessionID ob, te_Type = obs_Type ob,
      te_Title = obs_Title ob, te_Content = obs_Content ob, te_ToolName = obs_ToolName ob,
      te_Project = obs_Project ob, te_CreatedAt = obs_CreatedAt ob, te_IsFocus = False\<rparr>"

text \<open>\<^verbatim>\<open>QueryRow(...).Scan(&n)\<close> with the error dropped: on a failure \<^verbatim>\<open>n\<close> keeps its zero
  value.\<close>

definition countRow :: "faults \<Rightarrow> nat \<Rightarrow> int \<Rightarrow> int" where
  "countRow flt k n = (case flt k of Some m \<Rightarrow> 0 | None \<Rightarrow> n)"

text \<open>The statements of \<^verbatim>\<open>Timeline\<close>, in the order it issues them: 0 the focus, 1 its
  session, 2 the rows before, 3 the rows after, 4 the count.\<close>

definition Timeline ::
  "faults \<Rightarrow> Store \<Rightarrow> int \<Rightarrow> int \<Rightarrow> int \<Rightarrow> error + TimelineResult" where
  "Timeline flt s observationID before after =
     (let before = (if before \<le> 0 then 5 else before);
          after = (if after \<le> 0 then 5 else after)
      in case GetObservation flt s observationID of
        Inl e \<Rightarrow>
          Inl (Wrap (''timeline: observation #'' @ intToDec observationID @ '' not found'') e)
      | Inr focus \<Rightarrow>
          (let session =
                 (case GetSession (shiftFaults 1 flt) s (obs_SessionID focus) of
                    Inl e \<Rightarrow> None
                  | Inr x \<Rightarrow> Some x)
           in case stmt flt 2
                (sqlLimit before (orderByDesc obs_ID
                   (filter (\<lambda>ob. obs_SessionID ob = obs_SessionID focus \<and> obs_ID ob < observationID)
                      (observations (db s))))) of
             Inl e \<Rightarrow> Inl (Wrap ''timeline: before query'' e)
           | Inr beforeRows \<Rightarrow>
               (let beforeEntries = rev (map toEntry beforeRows)
                in case stmt flt 3
                     (sqlLimit after (orderByAsc obs_ID
                        (filter (\<lambda>ob. obs_SessionID ob = obs_SessionID focus \<and>
                                       obs_ID ob > observationID)
                           (observations (db s))))) of
                  Inl e \<Rightarrow> Inl (Wrap ''timeline: after query'' e)
                | Inr afterRows \<Rightarrow>
                    Inr \<lparr>Focus = focus, Before = beforeEntries,
                         After = map toEntry afterRows, SessionInfo = session,
                         TotalInRange = countRow flt 4
                           (int (length (filter (\<lambda>ob. obs_SessionID ob = obs_SessionID focus)
                              (observations (db s)))))\<rparr>)))"

section \<open>Search\<close>

definition Search ::
  "FTS \<Rightarrow> faults \<Rightarrow> Store \<Rightarrow> string \<Rightarrow> SearchOptions \<Rightarrow> error + SearchResult list" where
  "Search fts flt s query opts =
     (let limit = so_Limit opts;
          limit = (if limit \<le> 0 then 10 else limit);
          limit = (if limit > MaxSearchResults (cfg s) then MaxSearchResults (cfg s) else limit);
          ftsQuery = sanitizeFTS query;
          rank = obsRank fts (observations (db s)) ftsQuery
      in case flt 0 of
        Some m \<Rightarrow> Inl (Wrap ''search'' (ErrStorage m))
      | None \<Rightarrow>
          Inr (map (\<lambda>ob. \<lparr>sr_Observation = ob, sr_Rank = rank ob\<rparr>)
            (sqlLimit limit (orderByAsc rank
               (filter (\<lambda>ob. obsMatch fts ftsQuery ob \<and>
                              (so_Type opts = [] \<or> obs_Type ob = so_Type opts) \<and>
                              (so_Project opts = [] \<or> obs_Project ob = Some (so_Project opts)))
                  (observations (db s)))))))"

section \<open>Stats\<close>

text \<open>\<^verbatim>\<open>Stats\<close> issues four statements and returns a nil error whatever they do.\<close>

definition Stats :: "faults \<Rightarrow> Store \<Rightarrow> error + Stats" where
  "Stats flt s =
     Inr \<lparr>TotalSessions = countRow flt 0 (int (length (sessions (db s)))),
          TotalObservations = countRow flt 1 (int (length (observations (db s)))),
          TotalPrompts = countRow flt 2 (int (length (user_prompts (db s)))),
          Projects =
            (case flt 3 of
               Some m \<Rightarrow> []
             | None \<Rightarrow> sort (remdups (List.map_filter obs_Project (observations (db s)))))\<rparr>"

section \<open>Context formatting\<close>

definition formatSession :: "SessionSummary \<Rightarrow> string" where
  "formatSession x =
     ''- **'' @ ss_Project x @ ''** ('' @ ss_StartedAt x @ '')'' @
     (case ss_Summary x of None \<Rightarrow> [] | Some t \<Rightarrow> '': '' @ truncate t 200) @
     '' ['' @ intToDec (ss_ObservationCount x) @ '' observations]\<newline>''"

definition formatPrompt :: "Prompt \<Rightarrow> string" where
  "formatPrompt p = ''- '' @ pr_CreatedAt p @ '': '' @ truncate (pr_Content p) 200 @ ''\<newline>''"

definition formatObservation :: "Observation \<Rightarrow> string" where
  "formatObservation ob =
     ''- ['' @ obs_Type ob @ ''] **'' @ obs_Title ob @ ''**: '' @
     truncate (obs_Content ob) 300 @ ''\<newline>''"

text \<open>The statements of \<^verbatim>\<open>FormatContext\<close>: 0 the sessions, 1 the observations, 2 the
  prompts.\<close>

definition FormatContext :: "faults \<Rightarrow> Store \<Rightarrow> string \<Rightarrow> error + string" where
  "FormatContext flt s project =
     (case RecentSessions flt s project 5 of
        Inl e \<Rightarrow> Inl e
      | Inr ss \<Rightarrow>
     (case RecentObservations (shiftFaults 1 flt) s project (MaxContextResults (cfg s)) of
        Inl e \<Rightarrow> Inl e
      | Inr obs \<Rightarrow>
     (case RecentPrompts (shiftFaults 2 flt) s project 10 of
        Inl e \<Rightarrow> Inl e
      | Inr ps \<Rightarrow>
          if ss = [] \<and> obs = [] \<and> ps = [] then Inr []
          else Inr (''## Memory from Previous Sessions\<newline>\<newline>'' @
            (if ss \<noteq> [] then
               ''### Recent Sessions\<newline>'' @ concat (map formatSession ss) @ ''\<newline>''
             else []) @
            (if ps \<noteq> [] then
               ''### Recent User Prompts\<newline>'' @ concat (map formatPrompt ps) @ ''\<newline>''
             else []) @
            (if obs \<noteq> [] then
               ''### Recent Observations\<newline>'' @ concat (map formatObservation obs) @
               ''\<newline>''
             else [])))))"

section \<open>Export and import\<close>

text \<open>The statements of \<^verbatim>\<open>Export\<close>: 0 the sessions, 1 the observations, 2 the prompts;
  \<open>now\<close> is what \<^verbatim>\<open>Now()\<close> returns.\<close>

definition Export :: "faults \<Rightarrow> string \<Rightarrow> Store \<Rightarrow> error + ExportData" where
  "Export flt now s =
     (case flt 0 of
        Some m \<Rightarrow> Inl (Wrap ''export sessions'' (ErrStorage m))
      | None \<Rightarrow>
     (case flt 1 of
        Some m \<Rightarrow> Inl (Wrap ''export observations'' (ErrStorage m))
      | None \<Rightarrow>
     (case flt 2 of
        Some m \<Rightarrow> Inl (Wrap ''export prompts'' (ErrStorage m))
      | None \<Rightarrow>
          (case scanPrompts (orderByAsc prow_ID (user_prompts (db s))) of
             Inl e \<Rightarrow> Inl e
           | Inr ps \<Rightarrow>
               Inr \<lparr>Version = ''0.1.0'', ExportedAt = now,
                    ed_Sessions = orderByAsc sess_StartedAt (sessions (db s)),
                    ed_Observations = orderByAsc obs_ID (observations (db s)),
                    ed_Prompts = ps\<rparr>))))"

text \<open>The three loops of \<^verbatim>\<open>Import\<close>.  Each runs inside the transaction, on the database
  as the statements before have left it; \<open>k\<close> is the number of the next statement and
  \<open>n\<close> the tally so far.\<close>

fun importSessions :: "faults \<Rightarrow> nat \<Rightarrow> Session list \<Rightarrow> DB \<Rightarrow> int \<Rightarrow> error + DB \<times> int" where
  "importSessions flt k [] d n = Inr (d, n)"
| "importSessions flt k (x # xs) d n =
     (case flt k of
        Some m \<Rightarrow> Inl (Wrap (''import session '' @ sess_ID x) (ErrStorage m))
      | None \<Rightarrow>
          (let (d', a) = insertOrIgnoreSession x d
           in importSessions flt (Suc k) xs d' (n + a)))"

fun importObservations ::
  "faults \<Rightarrow> nat \<Rightarrow> Observation list \<Rightarrow> DB \<Rightarrow> int \<Rightarrow> error + DB \<times> int" where
  "importObservations flt k [] d n = Inr (d, n)"
| "importObservations flt k (x # xs) d n =
     (case flt k of
        Some m \<Rightarrow> Inl (Wrap (''import observation '' @ intToDec (obs_ID x)) (ErrStorage m))
      | None \<Rightarrow> importObservations flt (Suc k) xs (snd (insertObservation x d)) (n + 1))"

fun importPrompts :: "faults \<Rightarrow> nat \<Rightarrow> Prompt list \<Rightarrow> DB \<Rightarrow> int \<Rightarrow> error + DB \<times> int" where
  "importPrompts flt k [] d n = Inr (d, n)"
| "importPrompts flt k (x # xs) d n =
     (case flt k of
        Some m \<Rightarrow> Inl (Wrap (''import prompt '' @ intToDec (pr_ID x)) (ErrStorage m))
      | None \<Rightarrow>
          importPrompts flt (Suc k) xs
            (snd (insertPrompt
               \<lparr>prow_ID = 0, prow_SessionID = pr_SessionID x, prow_Content = pr_Content x,
                prow_Project = Some (pr_Project x), prow_CreatedAt = pr_CreatedAt x\<rparr> d))
            (n + 1))"

text \<open>\<^verbatim>\<open>Import\<close>: statement 0 begins the transaction, one statement follows for every
  session, observation and prompt of the snapshot, and the last one commits.  A failure
  rolls everything back.\<close>

definition importStatements :: "ExportData \<Rightarrow> nat" where
  "importStatements data =
     length (ed_Sessions data) + length (ed_Observations data) + length (ed_Prompts data) + 2"

definition Import :: "faults \<Rightarrow> Store \<Rightarrow> ExportData \<Rightarrow> (error + ImportResult) \<times> Store" where
  "Import flt s data =
     (let k1 = 1 + length (ed_Sessions data);
          k2 = k1 + length (ed_Observations data);
          k3 = k2 + length (ed_Prompts data)
      in case flt 0 of
        Some m \<Rightarrow> (Inl (Wrap ''import: begin tx'' (ErrStorage m)), s)
      | None \<Rightarrow>
     (case importSessions flt 1 (ed_Sessions data) (db s) 0 of
        Inl e \<Rightarrow> (Inl e, s)
      | Inr (d1, ns) \<Rightarrow>
     (case importObservations flt k1 (ed_Observations data) d1 0 of
        Inl e \<Rightarrow> (Inl e, s)
      | Inr (d2, no) \<Rightarrow>
     (case importPrompts flt k2 (ed_Prompts data) d2 0 of
        Inl e \<Rightarrow> (Inl e, s)
      | Inr (d3, np) \<Rightarrow>
     (case flt k3 of
        Some m \<Rightarrow> (Inl (Wrap ''import: commit'' (ErrStorage m)), s)
      | None \<Rightarrow>
          (Inr \<lparr>SessionsImported = ns, ObservationsImported = no, PromptsImported = np\<rparr>,
           s\<lparr>db := d3\<rparr>))))))"

section \<open>Sync chunk tracking\<close>

definition GetSyncedChunks :: "faults \<Rightarrow> Store \<Rightarrow> error + string set" where
  "GetSyncedChunks flt s =
     (case flt 0 of
        Some m \<Rightarrow> Inl (Wrap ''get synced chunks'' (ErrStorage m))
      | None \<Rightarrow> Inr (set (map fst (sync_chunks (db s)))))"

definition RecordSyncedChunk ::
  "faults \<Rightarrow> string \<Rightarrow> Store \<Rightarrow> string \<Rightarrow> error option \<times> Store" where
  "RecordSyncedChunk flt now s chunkID =
     (case flt 0 of
        Some m \<Rightarrow> (Some (ErrStorage m), s)
      | None \<Rightarrow>
          (None,
           if list_ex (\<lambda>c. fst c = chunkID) (sync_chunks (db s)) then s
           else s\<lparr>db := (db s)\<lparr>sync_chunks := sync_chunks (db s) @ [(chunkID, now)]\<rparr>\<rparr>))"

section \<open>Sequences of operations\<close>

text \<open>A call of one operation of the store with its arguments, and what the caller gets
  back.  \<open>perform\<close> runs one call; \<open>run\<close> runs a sequence of calls, each with the
  schedule of the engine and the clock reading it meets.\<close>

datatype call =
    CallCreateSession string string string
  | CallEndSession string string
  | CallGetSession string
  | CallRecentSessions string int
  | CallAllSessions string int
  | CallAllObservations string int
  | CallSessionObservations string int
  | CallAddObservation AddObservationParams
  | CallRecentObservations string int
  | CallAddPrompt AddPromptParams
  | CallRecentPrompts string int
  | CallSearchPrompts string string int
  | CallGetObservation int
  | CallTimeline int int int
  | CallSearch string SearchOptions
  | CallStats
  | CallFormatContext string
  | CallExport
  | CallImport ExportData
  | CallGetSyncedChunks
  | CallRecordSyncedChunk string

datatype reply =
    Failed error
  | Done
  | NewID int
  | GotSession Session
  | GotSessions "SessionSummary list"
  | GotObservation Observation
  | GotObservations "Observation list"
  | GotPrompts "Prompt list"
  | GotTimeline TimelineResult
  | GotResults "SearchResult list"
  | GotStats Stats
  | GotContext string
  | GotExport ExportData
  | GotImport ImportResult
  | GotChunks "string set"

definition answer :: "('a \<Rightarrow> reply) \<Rightarrow> error + 'a \<Rightarrow> reply" where
  "answer f r = (case r of Inl e \<Rightarrow> Failed e | Inr v \<Rightarrow> f v)"

definition ack :: "error option \<Rightarrow> reply" where
  "ack r = (case r of Some e \<Rightarrow> Failed e | None \<Rightarrow> Done)"

fun perform :: "FTS \<Rightarrow> faults \<Rightarrow> string \<Rightarrow> Store \<Rightarrow> call \<Rightarrow> reply \<times> Store" where
  "perform fts flt now s (CallCreateSession ident project directory) =
     (let (r, s') = CreateSession flt now s ident project directory in (ack r, s'))"
| "perform fts flt now s (CallEndSession ident summary) =
     (let (r, s') = EndSession flt now s ident summary in (ack r, s'))"
| "perform fts flt now s (CallGetSession ident) = (answer GotSession (GetSession flt s ident), s)"
| "perform fts flt now s (CallRecentSessions project limit) =
     (answer GotSessions (RecentSessions flt s project limit), s)"
| "perform fts flt now s (CallAllSessions project limit) =
     (answer GotSessions (AllSessions flt s project limit), s)"
| "perform fts flt now s (CallAllObservations project limit) =
     (answer GotObservations (AllObservations flt s project limit), s)"
| "perform fts flt now s (CallSessionObservations sessionID limit) =
     (answer GotObservations (SessionObservations flt s sessionID limit), s)"
| "perform fts flt now s (CallAddObservation p) =
     (let (r, s') = AddObservation flt now s p in (answer NewID r, s'))"
| "perform fts flt now s (CallRecentObservations project limit) =
     (answer GotObservations (RecentObservations flt s project limit), s)"
| "perform fts flt now s (CallAddPrompt p) =
     (let (r, s') = AddPrompt flt now s p in (answer NewID r, s'))"
| "perform fts flt now s (CallRecentPrompts project limit) =
     (answer GotPrompts (RecentPrompts flt s project limit), s)"
| "perform fts flt now s (CallSearchPrompts query project limit) =
     (answer GotPrompts (SearchPrompts fts flt s query project limit), s)"
| "perform fts flt now s (CallGetObservation ident) =
     (answer GotObservation (GetObservation flt s ident), s)"
| "perform fts flt now s (CallTimeline ident before after) =
     (answer GotTimeline (Timeline flt s ident before after), s)"
| "perform fts flt now s (CallSearch query opts) =
     (answer GotResults (Search fts flt s query opts), s)"
| "perform fts flt now s CallStats = (answer GotStats (Stats flt s), s)"
| "perform fts flt now s (CallFormatContext project) =
     (answer GotContext (FormatContext flt s project), s)"
| "perform fts flt now s CallExport = (answer GotExport (Export flt now s), s)"
| "perform fts flt now s (CallImport data) =
     (let (r, s') = Import flt s data in (answer GotImport r, s'))"
| "perform fts flt now s CallGetSyncedChunks = (answer GotChunks (GetSyncedChunks flt s), s)"
| "perform fts flt now s (CallRecordSyncedChunk chunkID) =
     (let (r, s') = RecordSyncedChunk flt now s chunkID in (ack r, s'))"

fun run :: "FTS \<Rightarrow> (faults \<times> string \<times> call) list \<Rightarrow> Store \<Rightarrow> Store" where
  "run fts [] s = s"
| "run fts ((flt, now, c) # cs) s = run fts cs (snd (perform fts flt now s c))"

text \<open>The title and content of every observation in a reply.\<close>

definition obsTexts :: "Observation \<Rightarrow> string \<times> string" where
  "obsTexts ob = (obs_Title ob, obs_Content ob)"

definition entryTexts :: "TimelineEntry \<Rightarrow> string \<times> string" where
  "entryTexts e = (te_Title e, te_Content e)"

fun returnedTexts :: "reply \<Rightarrow> (string \<times> string) list" where
  "returnedTexts (GotObservation ob) = [obsTexts ob]"
| "returnedTexts (GotObservations obs) = map obsTexts obs"
| "returnedTexts (GotResults rs) = map (\<lambda>r. obsTexts (sr_Observation r)) rs"
| "returnedTexts (GotTimeline t) =
     obsTexts (Focus t) # map entryTexts (Before t) @ map entryTexts (After t)"
| "returnedTexts (GotExport data) = map obsTexts (ed_Observations data)"
| "returnedTexts r = []"

text \<open>No private span in the title or in the content.\<close>

definition redacted :: "string \<times> string \<Rightarrow> bool" where
  "redacted tc = (\<not> matchPrivate (fst tc) \<and> \<not> matchPrivate (snd tc))"

definition redactedDB :: "DB \<Rightarrow> bool" where
  "redactedDB d = list_all (\<lambda>ob. redacted (obsTexts ob)) (observations d)"

text \<open>A call whose payload, if it is a snapshot to import, carries only observations
  without private spans.\<close>

fun redactedCall :: "call \<Rightarrow> bool" where
  "redactedCall (CallImport data) = list_all (\<lambda>ob. redacted (obsTexts ob)) (ed_Observations data)"
| "redactedCall c = True"

text \<open>The statements of a call whose failure the operation hands to its caller: all of
  them, except that \<^verbatim>\<open>Stats\<close> hands on none and \<^verbatim>\<open>Timeline\<close> neither the lookup of the
  session (statement 1) nor the count (statement 4).\<close>

fun propagatedStatements :: "call \<Rightarrow> nat list" where
  "propagatedStatements CallStats = []"
| "propagatedStatements (CallTimeline ident before after) = [0, 2, 3]"
| "propagatedStatements (CallFormatContext project) = [0, 1, 2]"
| "propagatedStatements CallExport = [0, 1, 2]"
| "propagatedStatements (CallImport data) = [0..<importStatements data]"
| "propagatedStatements c = [0]"

text \<open>The rows of \<^verbatim>\<open>observations\<close> respect the counter of \<^verbatim>\<open>AUTOINCREMENT\<close>.\<close>

definition seqInv :: "DB \<Rightarrow> bool" where
  "seqInv d = list_all (\<lambda>ob. obs_ID ob \<le> observations_seq d) (observations d)"

text \<open>The last \<open>n\<close> elements of a list.\<close>

definition lastN :: "nat \<Rightarrow> 'a list \<Rightarrow> 'a list" where
  "lastN n xs = drop (length xs - n) xs"

section \<open>Example stores\<close>

text \<open>Concrete stores and arguments on which the theorems below are instantiated.\<close>

definition exampleSession :: Session where
  "exampleSession =
     \<lparr>sess_ID = ''s1'', sess_Project = ''acme'', sess_Directory = ''/tmp/acme'',
      sess_StartedAt = ''2025-01-01 10:00:00'', sess_EndedAt = None, sess_Summary = None\<rparr>"

definition exampleStore :: Store where
  "exampleStore =
     \<lparr>db = emptyDB\<lparr>sessions := [exampleSession]\<rparr>, cfg = DefaultConfig ''/home/u/.engram''\<rparr>"

definition exampleParams :: AddObservationParams where
  "exampleParams =
     \<lparr>aop_SessionID = ''s1'', aop_Type = ''config'', aop_Title = ''API key'',
      aop_Content = ''key=<private>sk-123</private> done'', aop_ToolName = [],
      aop_Project = ''acme''\<rparr>"

definition exampleObs :: "int \<Rightarrow> Observation" where
  "exampleObs i =
     \<lparr>obs_ID = i, obs_SessionID = ''s2'', obs_Type = ''bugfix'', obs_Title = ''Fix'',
      obs_Content = ''Batch loaded users'', obs_ToolName = None, obs_Project = Some ''acme'',
      obs_CreatedAt = ''2025-01-01 10:00:00''\<rparr>"

definition exampleFTS :: FTS where
  "exampleFTS =
     \<lparr>obsMatch = (\<lambda>q ob. True), obsRank = (\<lambda>rows q ob. 0),
      promptMatch = (\<lambda>q r. True), promptRank = (\<lambda>rows q r. 0)\<rparr>"

definition smallSession :: Session where
  "smallSession =
     \<lparr>sess_ID = ''s2'', sess_Project = ''acme'', sess_Directory = ''/tmp/acme'',
      sess_StartedAt = ''2025-01-01 09:59:00'', sess_EndedAt = None, sess_Summary = None\<rparr>"

definition smallStore :: Store where
  "smallStore =
     \<lparr>db = emptyDB\<lparr>sessions := [smallSession],
        observations := map exampleObs [1, 2, 3, 4, 5], observations_seq := 5\<rparr>,
      cfg = \<lparr>DataDir = ''/home/u/.engram'', MaxObservationLength = 2000,
             MaxContextResults = 20, MaxSearchResults = 2\<rparr>\<rparr>"

definition exampleCalls :: "(faults \<times> string \<times> call) list" where
  "exampleCalls =
     [(noFaults, ''2025-01-01 10:00:00'', CallCreateSession ''s1'' ''acme'' ''/tmp/acme''),
      (noFaults, ''2025-01-01 10:00:05'', CallAddObservation exampleParams)]"

definition unclosedParams :: AddObservationParams where
  "unclosedParams =
     \<lparr>aop_SessionID = ''s1'', aop_Type = ''pattern'', aop_Title = ''Use <private> tags'',
      aop_Content = ''Wrap a secret in <private> and close the tag'', aop_ToolName = [],
      aop_Project = ''acme''\<rparr>"

definition unclosedCalls :: "(faults \<times> string \<times> call) list" where
  "unclosedCalls =
     [(noFaults, ''2025-01-01 10:00:00'', CallCreateSession ''s1'' ''acme'' ''/tmp/acme''),
      (noFaults, ''2025-01-01 10:00:05'', CallAddObservation unclosedParams)]"

definition examplePromptParams :: AddPromptParams where
  "examplePromptParams =
     \<lparr>app_SessionID = ''s1'', app_Content = ''remember the deploy steps'', app_Project = []\<rparr>"

definition promptCalls :: "(faults \<times> string \<times> call) list" where
  "promptCalls =
     [(noFaults, ''2025-01-01 10:00:00'', CallCreateSession ''s1'' ''acme'' ''/tmp/acme''),
      (noFaults, ''2025-01-01 10:00:05'', CallAddPrompt examplePromptParams)]"

definition oneFault :: "nat \<Rightarrow> faults" where
  "oneFault k = (\<lambda>j. if j = k then Some ''disk I/O error'' else None)"

definition allFaults :: faults where
  "allFaults = (\<lambda>j. Some ''disk I/O error'')"

definition leakySnapshot :: ExportData where
  "leakySnapshot =
     \<lparr>Version = ''0.1.0'', ExportedAt = ''2025-01-01 09:00:00'', ed_Sessions = [exampleSession],
      ed_Observations =
        [(exampleObs 7)\<lparr>obs_SessionID := ''s1'', obs_Title := ''token'',
           obs_Content := ''<private>sk-123</private>''\<rparr>],
      ed_Prompts = []\<rparr>"

text \<open>\<^verbatim>\<open>strings.Contains\<close>, to state that a text holds a given substring.\<close>

fun containsStr :: "string \<Rightarrow> string \<Rightarrow> bool" where
  "containsStr [] sub = (sub = [])"
| "containsStr (c # cs) sub = (take (length sub) (c # cs) = sub \<or> containsStr cs sub)"

section \<open>Properties of the redactor\<close>

lemma of_char_toLowerASCII:
  "(of_char (toLowerASCII c) :: nat) =
     (if 65 \<le> (of_char c :: nat) \<and> (of_char c :: nat) \<le> 90 then of_char c + 32 else of_char c)"
  by (simp add: toLowerASCII_def Let_def)

lemma toLowerASCII_fixed:
  assumes "(of_char d :: nat) < 97 \<or> 122 < (of_char d :: nat)"
  shows "toLowerASCII c = d \<longleftrightarrow> c = d \<and> \<not> (65 \<le> (of_char d :: nat) \<and> (of_char d :: nat) \<le> 90)"
proof -
  have "toLowerASCII c = d \<longleftrightarrow> (of_char (toLowerASCII c) :: nat) = of_char d"
    by (metis char_of_char)
  also have "\<dots> \<longleftrightarrow> (of_char c :: nat) = of_char d \<and> \<not> (65 \<le> (of_char d :: nat) \<and> (of_char d :: nat) \<le> 90)"
    using assms by (auto simp: of_char_toLowerASCII)
  also have "\<dots> \<longleftrightarrow> c = d \<and> \<not> (65 \<le> (of_char d :: nat) \<and> (of_char d :: nat) \<le> 90)"
    by (metis char_of_char)
  finally show ?thesis .
qed

lemma toLowerASCII_lt [simp]: "toLowerASCII c = CHR ''<'' \<longleftrightarrow> c = CHR ''<''"
  by (subst toLowerASCII_fixed) simp_all

lemma toLowerASCII_bracket [simp]: "toLowerASCII c = CHR ''['' \<longleftrightarrow> c = CHR ''[''"
  by (subst toLowerASCII_fixed) simp_all

lemma toLowerASCII_dot [simp]: "toLowerASCII c = CHR ''.'' \<longleftrightarrow> c = CHR ''.''"
  by (subst toLowerASCII_fixed) simp_all

lemma toLowerASCII_consts [simp]:
  "toLowerASCII CHR ''<'' = CHR ''<''" "toLowerASCII CHR ''['' = CHR ''[''"
  "toLowerASCII CHR ''.'' = CHR ''.''"
  by (simp_all add: toLowerASCII_def)

lemma length_openTag [simp]: "length openTag = 9"
  by (simp add: openTag_def)

lemma length_closeTag [simp]: "length closeTag = 10"
  by (simp add: closeTag_def)

lemma foldPrefix_Cons:
  "foldPrefix (p # ps) (c # cs) \<longleftrightarrow> toLowerASCII c = p \<and> foldPrefix ps cs"
  by (auto simp: foldPrefix_def)

lemma foldPrefix_Nil [simp]: "foldPrefix [] s"
  by (simp add: foldPrefix_def)

lemma foldPrefix_Cons_Nil [simp]: "\<not> foldPrefix (p # ps) []"
  by (simp add: foldPrefix_def)

lemma foldPrefix_openTag_hd: "foldPrefix openTag (c # cs) \<Longrightarrow> c = CHR ''<''"
  by (simp add: openTag_def foldPrefix_Cons)

lemma foldPrefix_closeTag_hd: "foldPrefix closeTag (c # cs) \<Longrightarrow> c = CHR ''<''"
  by (simp add: closeTag_def foldPrefix_Cons)

lemma foldPrefix_append: "foldPrefix p s \<Longrightarrow> foldPrefix p (s @ t)"
  by (simp add: foldPrefix_def)

lemma findClose_copy: "c \<noteq> CHR ''<'' \<Longrightarrow> findClose (c # s) = findClose s"
  using foldPrefix_closeTag_hd by auto

lemma findClose_copies: "CHR ''<'' \<notin> set p \<Longrightarrow> findClose (p @ s) = findClose s"
  by (induction p) (auto simp del: findClose.simps simp: findClose_copy)

lemma findClose_drop: "findClose s = None \<Longrightarrow> findClose (drop k s) = None"
proof (induction s arbitrary: k)
  case Nil
  then show ?case by simp
next
  case (Cons c cs)
  then have cs: "findClose cs = None" by (simp split: if_splits)
  show ?case
  proof (cases k)
    case 0
    with Cons.prems show ?thesis by simp
  next
    case (Suc j)
    with Cons.IH [OF cs] show ?thesis by simp
  qed
qed

lemma findClose_append: "findClose s \<noteq> None \<Longrightarrow> findClose (s @ t) \<noteq> None"
proof (induction s)
  case Nil
  then show ?case by simp
next
  case (Cons c cs)
  show ?case
  proof (cases "foldPrefix closeTag (c # cs)")
    case True
    then have "foldPrefix closeTag ((c # cs) @ t)" by (rule foldPrefix_append)
    then show ?thesis by simp
  next
    case False
    with Cons.prems have "findClose cs \<noteq> None" by simp
    then have "findClose (cs @ t) \<noteq> None" by (rule Cons.IH)
    then show ?thesis by simp
  qed
qed

lemma replaceAllPrivate_copy:
  "c \<noteq> CHR ''<'' \<Longrightarrow> replaceAllPrivate (c # s) = c # replaceAllPrivate s"
  using foldPrefix_openTag_hd by auto

lemma matchPrivate_copy: "c \<noteq> CHR ''<'' \<Longrightarrow> matchPrivate (c # s) = matchPrivate s"
  using foldPrefix_openTag_hd by auto

lemma replaceAllPrivate_no_match: "\<not> matchPrivate s \<Longrightarrow> replaceAllPrivate s = s"
  by (induction s) auto

lemma matchPrivate_no_close: "findClose s = None \<Longrightarrow> \<not> matchPrivate s"
proof (induction s)
  case Nil
  then show ?case by simp
next
  case (Cons c cs)
  then have "findClose cs = None" by (simp split: if_splits)
  moreover have "findClose (drop (length openTag) (c # cs)) = None"
    using Cons.prems by (rule findClose_drop)
  ultimately show ?case using Cons.IH by simp
qed

lemma foldPrefix_take:
  "foldPrefix p s \<longleftrightarrow> length p \<le> length s \<and> foldPrefix p (take (length p) s)"
  by (auto simp: foldPrefix_def)

lemma foldPrefix_openTag_iff:
  "foldPrefix openTag (c # cs) \<longleftrightarrow>
     c = CHR ''<'' \<and> 8 \<le> length cs \<and> map toLowerASCII (take 8 cs) = ''private>''"
proof -
  have "foldPrefix openTag (c # cs) \<longleftrightarrow>
          9 \<le> length (c # cs) \<and> map toLowerASCII (take 9 (c # cs)) = openTag"
    unfolding foldPrefix_def length_openTag ..
  then show ?thesis by (auto simp: openTag_def)
qed

lemma openTag_tail_chars:
  assumes "foldPrefix openTag (c # cs)"
  shows "8 \<le> length cs" "CHR ''<'' \<notin> set (take 8 cs)" "CHR ''['' \<notin> set (take 8 cs)"
proof -
  from assms have len: "8 \<le> length cs" and m: "map toLowerASCII (take 8 cs) = ''private>''"
    by (simp_all add: foldPrefix_openTag_iff)
  show "8 \<le> length cs" by (rule len)
  have low: "toLowerASCII x \<in> set ''private>''" if "x \<in> set (take 8 cs)" for x
    using that m by (metis image_eqI list.set_map)
  show "CHR ''<'' \<notin> set (take 8 cs)"
  proof
    assume "CHR ''<'' \<in> set (take 8 cs)"
    from low [OF this] show False by simp
  qed
  show "CHR ''['' \<notin> set (take 8 cs)"
  proof
    assume "CHR ''['' \<in> set (take 8 cs)"
    from low [OF this] show False by simp
  qed
qed

lemma replaceAllPrivate_keeps:
  "n \<le> length (replaceAllPrivate s) \<Longrightarrow> CHR ''['' \<notin> set (take n (replaceAllPrivate s)) \<Longrightarrow>
   n \<le> length s \<and> take n s = take n (replaceAllPrivate s)"
proof (induction n arbitrary: s)
  case 0
  then show ?case by simp
next
  case (Suc n)
  then obtain c cs where s: "s = c # cs" by (cases s) auto
  show ?case
  proof (cases "foldPrefix openTag (c # cs) \<and> findClose (drop (length openTag) (c # cs)) \<noteq> None")
    case True
    then have "hd (replaceAllPrivate s) = CHR ''[''"
      by (auto simp: s REDACTED_def)
    with Suc.prems show ?thesis by (cases "replaceAllPrivate s") auto
  next
    case False
    then have r: "replaceAllPrivate (c # cs) = c # replaceAllPrivate cs"
      by auto
    with Suc.prems [unfolded s] have "n \<le> length (replaceAllPrivate cs)"
      "CHR ''['' \<notin> set (take n (replaceAllPrivate cs))" by auto
    then have "n \<le> length cs \<and> take n cs = take n (replaceAllPrivate cs)" by (rule Suc.IH)
    then show ?thesis unfolding s r by simp
  qed
qed

lemma replaceAllPrivate_clean: "\<not> matchPrivate (replaceAllPrivate s)"
proof (induction s rule: replaceAllPrivate.induct)
  case 1
  then show ?case by simp
next
  case (2 c cs)
  show ?case
  proof (cases "foldPrefix openTag (c # cs)")
    case False
    then have r: "replaceAllPrivate (c # cs) = c # replaceAllPrivate cs" by simp
    have ih: "\<not> matchPrivate (replaceAllPrivate cs)" using False by (rule "2.IH"(3))
    have "\<not> foldPrefix openTag (c # replaceAllPrivate cs)"
    proof
      assume a: "foldPrefix openTag (c # replaceAllPrivate cs)"
      then have 1: "8 \<le> length (replaceAllPrivate cs)"
        and 2: "CHR ''['' \<notin> set (take 8 (replaceAllPrivate cs))"
        by (rule openTag_tail_chars)+
      from replaceAllPrivate_keeps [OF 1 2]
      have "8 \<le> length cs" "take 8 cs = take 8 (replaceAllPrivate cs)" by simp_all
      with a have "foldPrefix openTag (c # cs)"
        by (simp add: foldPrefix_openTag_iff)
      with False show False by contradiction
    qed
    with ih show ?thesis unfolding r by simp
  next
    case True
    show ?thesis
    proof (cases "findClose (drop (length openTag) (c # cs))")
      case None
      then have r: "replaceAllPrivate (c # cs) = c # replaceAllPrivate cs" by simp
      from None have tl: "findClose (drop 8 cs) = None" by simp
      from True have "CHR ''<'' \<notin> set (take 8 cs)" by (rule openTag_tail_chars)
      then have "findClose (take 8 cs @ drop 8 cs) = findClose (drop 8 cs)"
        by (rule findClose_copies)
      with tl have cs: "findClose cs = None" by simp
      then have "replaceAllPrivate cs = cs"
        by (simp add: replaceAllPrivate_no_match matchPrivate_no_close)
      moreover have "\<not> matchPrivate cs" using cs by (rule matchPrivate_no_close)
      ultimately have "\<not> matchPrivate (c # replaceAllPrivate cs)" using None by simp
      then show ?thesis unfolding r .
    next
      case (Some rest)
      then have r: "replaceAllPrivate (c # cs) = REDACTED @ replaceAllPrivate rest"
        using True by simp
      have "\<not> matchPrivate (replaceAllPrivate rest)" using True Some by (rule "2.IH"(2))
      then show ?thesis
        unfolding r REDACTED_def by (simp add: matchPrivate_copy del: matchPrivate.simps)
    qed
  qed
qed


lemma matchPrivate_prepend: "matchPrivate t \<Longrightarrow> matchPrivate (a @ t)"
  by (induction a) simp_all

lemma matchPrivate_append: "matchPrivate t \<Longrightarrow> matchPrivate (t @ b)"
proof (induction t)
  case Nil
  then show ?case by simp
next
  case (Cons c cs)
  show ?case
  proof (cases "matchPrivate cs")
    case True
    then have "matchPrivate (cs @ b)" by (rule Cons.IH)
    then show ?thesis by simp
  next
    case False
    with Cons.prems have o: "foldPrefix openTag (c # cs)"
      and f: "findClose (drop (length openTag) (c # cs)) \<noteq> None" by simp_all
    from o have "8 \<le> length cs" by (rule openTag_tail_chars)
    then have "drop (length openTag) ((c # cs) @ b) = drop (length openTag) (c # cs) @ b"
      by simp
    with findClose_append [OF f, of b] foldPrefix_append [OF o, of b]
    show ?thesis by simp
  qed
qed

lemma trimLeftRunes_suffix: "\<exists>a. s = a @ trimLeftRunes ws s"
proof (induction ws s rule: trimLeftRunes.induct)
  case (1 ws s)
  show ?case
  proof (cases "leadingRune ws s")
    case None
    then show ?thesis by (simp add: trimLeftRunes.simps [of ws s])
  next
    case (Some w)
    from "1.IH" [OF Some] obtain a where "drop (length w) s = a @ trimLeftRunes ws (drop (length w) s)" ..
    then have "s = (take (length w) s @ a) @ trimLeftRunes ws (drop (length w) s)"
      by (metis append.assoc append_take_drop_id)
    then have "\<exists>a. s = a @ trimLeftRunes ws (drop (length w) s)" ..
    then show ?thesis using Some by (simp add: trimLeftRunes.simps [of ws s])
  qed
qed

lemma trimLeftRunes_done: "leadingRune ws (trimLeftRunes ws s) = None"
proof (induction ws s rule: trimLeftRunes.induct)
  case (1 ws s)
  show ?case
    by (cases "leadingRune ws s") (simp_all add: trimLeftRunes.simps [of ws s] "1.IH")
qed

lemma trimLeftRunes_fixed: "leadingRune ws s = None \<Longrightarrow> trimLeftRunes ws s = s"
  by (simp add: trimLeftRunes.simps [of ws s])

lemma trimRightRunes_prefix: "\<exists>b. s = trimRightRunes ws s @ b"
proof -
  obtain a where "rev s = a @ trimLeftRunes (map rev ws) (rev s)"
    using trimLeftRunes_suffix ..
  then have "s = rev (trimLeftRunes (map rev ws) (rev s)) @ rev a"
    by (metis rev_append rev_rev_ident)
  then show ?thesis unfolding trimRightRunes_def ..
qed

lemma trimRightRunes_idem: "trimRightRunes ws (trimRightRunes ws s) = trimRightRunes ws s"
  by (simp add: trimRightRunes_def trimLeftRunes_fixed trimLeftRunes_done)

lemma leadingRune_prefix: "leadingRune ws (t @ b) = None \<Longrightarrow> leadingRune ws t = None"
proof -
  assume n: "leadingRune ws (t @ b) = None"
  have "\<not> (w \<noteq> [] \<and> take (length w) t = w)" if w: "w \<in> set ws" for w
  proof
    assume a: "w \<noteq> [] \<and> take (length w) t = w"
    then have "length (take (length w) t) = length w" by simp
    then have "length w \<le> length t" by simp
    with a have "take (length w) (t @ b) = w" by simp
    with a w n show False by (auto simp: leadingRune_def find_None_iff)
  qed
  then show ?thesis by (auto simp: leadingRune_def find_None_iff)
qed

lemma TrimSpace_idem: "TrimSpace (TrimSpace s) = TrimSpace s"
proof -
  let ?l = "trimLeftRunes spaceRunes s"
  obtain b where "?l = trimRightRunes spaceRunes ?l @ b"
    using trimRightRunes_prefix ..
  then have "leadingRune spaceRunes (trimRightRunes spaceRunes ?l @ b) = None"
    using trimLeftRunes_done [of spaceRunes s] by simp
  then have "leadingRune spaceRunes (trimRightRunes spaceRunes ?l) = None"
    by (rule leadingRune_prefix)
  then have "trimLeftRunes spaceRunes (trimRightRunes spaceRunes ?l) = trimRightRunes spaceRunes ?l"
    by (rule trimLeftRunes_fixed)
  then show ?thesis by (simp add: TrimSpace_def trimRightRunes_idem)
qed

lemma TrimSpace_infix: "\<exists>a b. s = a @ TrimSpace s @ b"
proof -
  obtain a where a: "s = a @ trimLeftRunes spaceRunes s" using trimLeftRunes_suffix ..
  obtain b where "trimLeftRunes spaceRunes s = TrimSpace s @ b"
    unfolding TrimSpace_def using trimRightRunes_prefix ..
  with a have "s = a @ TrimSpace s @ b" by simp
  then show ?thesis by blast
qed

lemma TrimSpace_clean: "\<not> matchPrivate s \<Longrightarrow> \<not> matchPrivate (TrimSpace s)"
proof
  assume n: "\<not> matchPrivate s" and m: "matchPrivate (TrimSpace s)"
  obtain a b where s: "s = a @ TrimSpace s @ b" using TrimSpace_infix by blast
  from m have "matchPrivate (a @ TrimSpace s @ b)"
    by (intro matchPrivate_prepend matchPrivate_append)
  with s n show False by simp
qed

lemma stripPrivateTags_clean: "\<not> matchPrivate (stripPrivateTags s)"
  unfolding stripPrivateTags_def by (rule TrimSpace_clean) (rule replaceAllPrivate_clean)


text \<open>The replacement changes a text exactly when the pattern matches in it.\<close>

lemma replaceAllPrivate_changes: "matchPrivate s \<Longrightarrow> replaceAllPrivate s \<noteq> s"
proof (induction s)
  case Nil
  then show ?case by simp
next
  case (Cons c cs)
  show ?case
  proof (cases "foldPrefix openTag (c # cs) \<and> findClose (drop (length openTag) (c # cs)) \<noteq> None")
    case True
    then have "c = CHR ''<''" using foldPrefix_openTag_hd by blast
    moreover from True obtain rest where "replaceAllPrivate (c # cs) = REDACTED @ replaceAllPrivate rest"
      by auto
    ultimately show ?thesis by (simp add: REDACTED_def)
  next
    case False
    with Cons.prems have "matchPrivate cs" by auto
    then have "replaceAllPrivate cs \<noteq> cs" by (rule Cons.IH)
    moreover from False have "replaceAllPrivate (c # cs) = c # replaceAllPrivate cs" by auto
    ultimately show ?thesis by simp
  qed
qed

text \<open>The pattern matches in a text exactly when the text holds an opening tag and,
  somewhere after it, a closing tag, each in any letter case.\<close>

lemma foldPrefix_iff: "foldPrefix p s \<longleftrightarrow> (\<exists>u v. s = u @ v \<and> map toLowerASCII u = p)"
proof
  assume "foldPrefix p s"
  then have "s = take (length p) s @ drop (length p) s \<and> map toLowerASCII (take (length p) s) = p"
    by (simp add: foldPrefix_def)
  then show "\<exists>u v. s = u @ v \<and> map toLowerASCII u = p" by blast
next
  assume "\<exists>u v. s = u @ v \<and> map toLowerASCII u = p"
  then obtain u v where "s = u @ v" "map toLowerASCII u = p" by blast
  then show "foldPrefix p s" by (auto simp: foldPrefix_def)
qed

lemma findClose_iff:
  "findClose s \<noteq> None \<longleftrightarrow> (\<exists>b cl c. s = b @ cl @ c \<and> map toLowerASCII cl = closeTag)"
proof
  show "findClose s \<noteq> None \<Longrightarrow> \<exists>b cl c. s = b @ cl @ c \<and> map toLowerASCII cl = closeTag"
  proof (induction s)
    case Nil
    then show ?case by simp
  next
    case (Cons x xs)
    show ?case
    proof (cases "foldPrefix closeTag (x # xs)")
      case True
      then obtain u v where "x # xs = [] @ u @ v" "map toLowerASCII u = closeTag"
        by (auto simp: foldPrefix_iff)
      then show ?thesis by blast
    next
      case False
      with Cons.prems have "findClose xs \<noteq> None" by simp
      from Cons.IH [OF this] obtain b cl c where "xs = b @ cl @ c" "map toLowerASCII cl = closeTag"
        by blast
      then have "x # xs = (x # b) @ cl @ c \<and> map toLowerASCII cl = closeTag" by simp
      then show ?thesis by blast
    qed
  qed
next
  assume "\<exists>b cl c. s = b @ cl @ c \<and> map toLowerASCII cl = closeTag"
  then obtain b cl c where s: "s = b @ cl @ c" and cl: "map toLowerASCII cl = closeTag" by blast
  from cl have "foldPrefix closeTag (cl @ c)" by (auto simp: foldPrefix_iff)
  moreover from cl have "cl @ c \<noteq> []" by (auto simp: closeTag_def)
  ultimately have "findClose (cl @ c) \<noteq> None" by (cases "cl @ c") auto
  then have "findClose (b @ cl @ c) \<noteq> None" by (induction b) auto
  with s show "findClose s \<noteq> None" by simp
qed

lemma matchPrivate_iff:
  "matchPrivate s \<longleftrightarrow>
     (\<exists>a ot b cl c. s = a @ ot @ b @ cl @ c \<and> map toLowerASCII ot = openTag \<and>
        map toLowerASCII cl = closeTag)"
proof
  show "matchPrivate s \<Longrightarrow> \<exists>a ot b cl c. s = a @ ot @ b @ cl @ c \<and>
      map toLowerASCII ot = openTag \<and> map toLowerASCII cl = closeTag"
  proof (induction s)
    case Nil
    then show ?case by simp
  next
    case (Cons x xs)
    show ?case
    proof (cases "matchPrivate xs")
      case True
      from Cons.IH [OF this] obtain a ot b cl c where
        "xs = a @ ot @ b @ cl @ c" "map toLowerASCII ot = openTag" "map toLowerASCII cl = closeTag"
        by blast
      then have "x # xs = (x # a) @ ot @ b @ cl @ c \<and> map toLowerASCII ot = openTag \<and>
          map toLowerASCII cl = closeTag" by simp
      then show ?thesis by blast
    next
      case False
      with Cons.prems have o: "foldPrefix openTag (x # xs)"
        and f: "findClose (drop (length openTag) (x # xs)) \<noteq> None" by simp_all
      let ?ot = "take (length openTag) (x # xs)"
      from o have ot: "map toLowerASCII ?ot = openTag" by (simp add: foldPrefix_def)
      from iffD1 [OF findClose_iff f]
      obtain b cl c where "drop (length openTag) (x # xs) = b @ cl @ c"
        "map toLowerASCII cl = closeTag" by blast
      then have "x # xs = [] @ ?ot @ b @ cl @ c \<and> map toLowerASCII cl = closeTag"
        by (metis append_Nil append_take_drop_id)
      with ot show ?thesis by blast
    qed
  qed
next
  assume "\<exists>a ot b cl c. s = a @ ot @ b @ cl @ c \<and> map toLowerASCII ot = openTag \<and>
        map toLowerASCII cl = closeTag"
  then obtain a ot b cl c where s: "s = a @ ot @ b @ cl @ c"
    and ot: "map toLowerASCII ot = openTag" and cl: "map toLowerASCII cl = closeTag" by blast
  from ot have len: "length ot = length openTag" by (metis length_map)
  from ot have "foldPrefix openTag (ot @ b @ cl @ c)" by (auto simp: foldPrefix_iff)
  moreover from cl have "findClose (b @ cl @ c) \<noteq> None"
    using iffD2 [OF findClose_iff] by blast
  then have "findClose (drop (length openTag) (ot @ b @ cl @ c)) \<noteq> None" using len by simp
  moreover from ot have "ot @ b @ cl @ c \<noteq> []" by (auto simp: openTag_def)
  ultimately have "matchPrivate (ot @ b @ cl @ c)" by (cases "ot @ b @ cl @ c") auto
  then have "matchPrivate (a @ ot @ b @ cl @ c)" by (rule matchPrivate_prepend)
  with s show "matchPrivate s" by simp
qed

text \<open>Cutting a text and appending the truncation marker creates no private span.\<close>

lemma foldPrefix_cut:
  "CHR ''.'' \<notin> set p \<Longrightarrow> foldPrefix p (take n s @ CHR ''.'' # t) \<Longrightarrow>
   foldPrefix p s \<and> length p \<le> n"
proof (induction p arbitrary: n s)
  case Nil
  then show ?case by simp
next
  case (Cons a p)
  show ?case
  proof (cases "take n s")
    case Nil
    with Cons.prems show ?thesis by (simp add: foldPrefix_Cons)
  next
    case (Cons c u)
    then obtain m cs where n: "n = Suc m" and s: "s = c # cs" and u: "u = take m cs"
      by (cases n; cases s) auto
    from Cons.prems have "toLowerASCII c = a" "foldPrefix p (take m cs @ CHR ''.'' # t)"
      by (simp_all add: n s foldPrefix_Cons)
    moreover from Cons.prems have "CHR ''.'' \<notin> set p" by simp
    ultimately have "toLowerASCII c = a" "foldPrefix p cs \<and> length p \<le> m"
      using Cons.IH by blast+
    then show ?thesis by (simp add: n s foldPrefix_Cons)
  qed
qed

lemma findClose_plain: "CHR ''<'' \<notin> set t \<Longrightarrow> findClose t = None"
  using findClose_copies [of t "[]"] by simp

lemma matchPrivate_plain: "CHR ''<'' \<notin> set t \<Longrightarrow> \<not> matchPrivate t"
  by (rule matchPrivate_no_close) (rule findClose_plain)

lemma plain_dot:
  assumes "CHR ''<'' \<notin> set t"
  shows "findClose (CHR ''.'' # t) = None" "\<not> matchPrivate (CHR ''.'' # t)"
proof -
  from assms have "CHR ''<'' \<notin> set (CHR ''.'' # t)" by simp
  then show "findClose (CHR ''.'' # t) = None" "\<not> matchPrivate (CHR ''.'' # t)"
    by (rule findClose_plain matchPrivate_plain)+
qed

lemma findClose_cut:
  assumes "CHR ''<'' \<notin> set t"
  shows "findClose (take n s @ CHR ''.'' # t) \<noteq> None \<Longrightarrow> findClose s \<noteq> None"
proof (induction s arbitrary: n)
  case Nil
  from Nil [unfolded take_Nil append_Nil plain_dot(1) [OF assms]] show ?case by simp
next
  case (Cons c cs)
  show ?case
  proof (cases n)
    case 0
    from Cons.prems [unfolded 0 take_0 append_Nil plain_dot(1) [OF assms]] show ?thesis by simp
  next
    case (Suc m)
    show ?thesis
    proof (cases "foldPrefix closeTag (take n (c # cs) @ CHR ''.'' # t)")
      case True
      then have "foldPrefix closeTag (c # cs)"
        using foldPrefix_cut [of closeTag n "c # cs" t] by (simp add: closeTag_def)
      then show ?thesis by simp
    next
      case False
      with Cons.prems have "findClose (take m cs @ CHR ''.'' # t) \<noteq> None"
        by (simp add: Suc)
      then have "findClose cs \<noteq> None" by (rule Cons.IH)
      then show ?thesis by simp
    qed
  qed
qed

lemma matchPrivate_cut:
  assumes "CHR ''<'' \<notin> set t"
  shows "matchPrivate (take n s @ CHR ''.'' # t) \<Longrightarrow> matchPrivate s"
proof (induction s arbitrary: n)
  case Nil
  from Nil [unfolded take_Nil append_Nil] plain_dot(2) [OF assms] show ?case by contradiction
next
  case (Cons c cs)
  show ?case
  proof (cases n)
    case 0
    from Cons.prems [unfolded 0 take_0 append_Nil] plain_dot(2) [OF assms]
    show ?thesis by contradiction
  next
    case (Suc m)
    show ?thesis
    proof (cases "matchPrivate (take m cs @ CHR ''.'' # t)")
      case True
      then have "matchPrivate cs" by (rule Cons.IH)
      then show ?thesis by simp
    next
      case False
      with Cons.prems
      have o: "foldPrefix openTag (take n (c # cs) @ CHR ''.'' # t)"
        and f: "findClose (drop (length openTag) (take n (c # cs) @ CHR ''.'' # t)) \<noteq> None"
        by (simp_all add: Suc)
      from o have o': "foldPrefix openTag (c # cs)" and len: "9 \<le> n"
        using foldPrefix_cut [of openTag n "c # cs" t] by (simp_all add: openTag_def)
      from o' have "8 \<le> length cs" by (rule openTag_tail_chars)
      with len have "drop (length openTag) (take n (c # cs) @ CHR ''.'' # t) =
          take (n - 9) (drop 9 (c # cs)) @ CHR ''.'' # t"
        by (simp add: drop_take)
      with f have "findClose (drop 9 (c # cs)) \<noteq> None"
        using findClose_cut [OF assms] by metis
      with o' show ?thesis by simp
    qed
  qed
qed

lemma truncateContent_clean:
  assumes "\<not> matchPrivate c" and "truncateContent mx c = Inr c'"
  shows "\<not> matchPrivate c'"
proof (cases "int (length c) > mx")
  case False
  with assms show ?thesis by (simp add: truncateContent_def)
next
  case True
  with assms(2) have "c' = take (nat mx) c @ CHR ''.'' # ''.. [truncated]''"
    by (simp add: truncateContent_def split: if_splits)
  moreover have "CHR ''<'' \<notin> set ''.. [truncated]''" by simp
  ultimately show ?thesis using assms(1) matchPrivate_cut by metis
qed

text \<open>
  Claim C3.  The redactor is idempotent: for every string \<open>x\<close>, stripping the private
  tags of \<open>stripPrivateTags x\<close> gives \<open>stripPrivateTags x\<close> again.
\<close>

theorem stripPrivateTags_idempotent:
  "stripPrivateTags (stripPrivateTags x) = stripPrivateTags x"
proof -
  have "replaceAllPrivate (stripPrivateTags x) = stripPrivateTags x"
    using stripPrivateTags_clean by (rule replaceAllPrivate_no_match)
  then have "stripPrivateTags (stripPrivateTags x) = TrimSpace (stripPrivateTags x)"
    by (simp add: stripPrivateTags_def)
  also have "\<dots> = stripPrivateTags x"
    unfolding stripPrivateTags_def by (rule TrimSpace_idem)
  finally show ?thesis .
qed

text \<open>
  Claim C4.  The claim is that a private span which contains a nested pair of tags is
  replaced as a whole by one token.  The lazy match of the code ends at the first
  closing tag: on the input below the text \<open>c\<close> of the outer span and the outer closing
  tag are left in the result.
\<close>

theorem stripPrivateTags_nested_remnant:
  "stripPrivateTags ''<private>a<private>b</private>c</private>'' = ''[REDACTED]c</private>''"
  by code_simp


section \<open>Properties of the store\<close>

lemmas redactor_eval =
  stripPrivateTags_def TrimSpace_def trimRightRunes_def trimLeftRunes.simps leadingRune_def
  spaceRunes_def foldPrefix_def openTag_def closeTag_def REDACTED_def toLowerASCII_def

lemma shiftFaults_noFaults [simp]: "shiftFaults n noFaults = noFaults"
  by (simp add: shiftFaults_def noFaults_def)

lemma stmt_noFaults [simp]: "stmt noFaults k v = Inr v"
  by (simp add: stmt_def noFaults_def)

lemma countRow_noFaults [simp]: "countRow noFaults k n = n"
  by (simp add: countRow_def noFaults_def)

lemma queryRow_noFaults:
  "queryRow noFaults k rows = (case rows of [] \<Rightarrow> Inl ErrNoRows | r # _ \<Rightarrow> Inr r)"
  by (simp add: queryRow_def noFaults_def)

lemma find_filter_hd:
  "find P xs = (case filter P xs of [] \<Rightarrow> None | x # _ \<Rightarrow> Some x)"
  by (induction xs) auto

lemma rev_take_rev: "rev (take n (rev xs)) = lastN n xs"
  by (simp add: lastN_def rev_take)

subsection \<open>Reads return stored rows\<close>

lemma set_sqlLimit: "set (sqlLimit n rows) \<subseteq> set rows"
  by (auto simp: sqlLimit_def dest: in_set_takeD)

lemma set_orderByAsc [simp]: "set (orderByAsc key rows) = set rows"
  by (simp add: orderByAsc_def)

lemma set_orderByDesc [simp]: "set (orderByDesc key rows) = set rows"
  by (simp add: orderByDesc_def)

lemma stmt_Inr: "stmt flt k v = Inr w \<Longrightarrow> w = v"
  by (simp add: stmt_def split: option.splits)

lemma queryRow_Inr: "queryRow flt k rows = Inr r \<Longrightarrow> r \<in> set rows"
  by (auto simp: queryRow_def split: option.splits list.splits)

lemma entryTexts_toEntry [simp]: "entryTexts (toEntry ob) = obsTexts ob"
  by (simp add: entryTexts_def toEntry_def obsTexts_def)

lemma selectRecentObservations_rows:
  "set (selectRecentObservations d project limit) \<subseteq> set (observations d)"
  using set_sqlLimit by (fastforce simp: selectRecentObservations_def)

lemma GetObservation_rows:
  "GetObservation flt s ident = Inr ob \<Longrightarrow> ob \<in> set (observations (db s))"
  by (auto simp: GetObservation_def dest: queryRow_Inr)

lemma AllObservations_rows:
  "AllObservations flt s project limit = Inr obs \<Longrightarrow> set obs \<subseteq> set (observations (db s))"
  using selectRecentObservations_rows by (auto simp: AllObservations_def dest!: stmt_Inr)

lemma RecentObservations_rows:
  "RecentObservations flt s project limit = Inr obs \<Longrightarrow> set obs \<subseteq> set (observations (db s))"
  using selectRecentObservations_rows by (auto simp: RecentObservations_def dest!: stmt_Inr)

lemma SessionObservations_rows:
  "SessionObservations flt s sessionID limit = Inr obs \<Longrightarrow>
   set obs \<subseteq> set (observations (db s))"
proof -
  assume "SessionObservations flt s sessionID limit = Inr obs"
  then have "obs = sqlLimit (if limit \<le> 0 then 200 else limit)
       (orderByAsc obs_CreatedAt
          (filter (\<lambda>ob. obs_SessionID ob = sessionID) (observations (db s))))"
    by (auto simp: SessionObservations_def dest!: stmt_Inr)
  then show ?thesis using set_sqlLimit by fastforce
qed

lemma Search_rows:
  "Search fts flt s query opts = Inr rs \<Longrightarrow>
   sr_Observation ` set rs \<subseteq> set (observations (db s))"
proof -
  assume a: "Search fts flt s query opts = Inr rs"
  then obtain n key P where "rs = map (\<lambda>ob. \<lparr>sr_Observation = ob, sr_Rank = key ob\<rparr>)
      (sqlLimit n (orderByAsc key (filter P (observations (db s)))))"
    by (auto simp: Search_def Let_def split: option.splits)
  then have "sr_Observation ` set rs = set (sqlLimit n (orderByAsc key (filter P (observations (db s)))))"
    by (simp add: image_image)
  then show ?thesis using set_sqlLimit by fastforce
qed

lemma Timeline_rows:
  assumes "Timeline flt s ident before after = Inr t"
  shows "Focus t \<in> set (observations (db s))"
    and "entryTexts ` set (Before t) \<subseteq> obsTexts ` set (observations (db s))"
    and "entryTexts ` set (After t) \<subseteq> obsTexts ` set (observations (db s))"
proof -
  from assms obtain focus where g: "GetObservation flt s ident = Inr focus"
    by (auto simp: Timeline_def Let_def split: sum.splits)
  from assms g obtain n1 n2 P1 P2 where
    t: "Focus t = focus"
       "Before t = rev (map toEntry (sqlLimit n1 (orderByDesc obs_ID (filter P1 (observations (db s))))))"
       "After t = map toEntry (sqlLimit n2 (orderByAsc obs_ID (filter P2 (observations (db s)))))"
    by (auto simp: Timeline_def Let_def split: sum.splits dest!: stmt_Inr)
  show "Focus t \<in> set (observations (db s))"
    using g t(1) by (simp add: GetObservation_rows)
  have "entryTexts ` set (Before t) =
      obsTexts ` set (sqlLimit n1 (orderByDesc obs_ID (filter P1 (observations (db s)))))"
    by (simp add: t(2) image_image)
  then show "entryTexts ` set (Before t) \<subseteq> obsTexts ` set (observations (db s))"
    using set_sqlLimit by fastforce
  have "entryTexts ` set (After t) =
      obsTexts ` set (sqlLimit n2 (orderByAsc obs_ID (filter P2 (observations (db s)))))"
    by (simp add: t(3) image_image)
  then show "entryTexts ` set (After t) \<subseteq> obsTexts ` set (observations (db s))"
    using set_sqlLimit by fastforce
qed

lemma Export_rows:
  "Export flt now s = Inr data \<Longrightarrow> set (ed_Observations data) = set (observations (db s))"
  by (auto simp: Export_def split: option.splits sum.splits)

lemma returnedTexts_rows:
  "set (returnedTexts (fst (perform fts flt now s c))) \<subseteq> obsTexts ` set (observations (db s))"
proof (cases c)
  case (CallGetObservation ident)
  then show ?thesis
    by (cases "GetObservation flt s ident") (auto simp: answer_def dest: GetObservation_rows)
next
  case (CallAllObservations project limit)
  then show ?thesis
    by (cases "AllObservations flt s project limit")
       (auto simp: answer_def dest: AllObservations_rows)
next
  case (CallRecentObservations project limit)
  then show ?thesis
    by (cases "RecentObservations flt s project limit")
       (auto simp: answer_def dest: RecentObservations_rows)
next
  case (CallSessionObservations sessionID limit)
  then show ?thesis
    by (cases "SessionObservations flt s sessionID limit")
       (auto simp: answer_def dest: SessionObservations_rows)
next
  case (CallSearch query opts)
  show ?thesis
  proof (cases "Search fts flt s query opts")
    case (Inl e)
    with CallSearch show ?thesis by (simp add: answer_def)
  next
    case (Inr rs)
    from Search_rows [OF Inr]
    have "(\<lambda>r. obsTexts (sr_Observation r)) ` set rs \<subseteq> obsTexts ` set (observations (db s))"
      by auto
    with CallSearch Inr show ?thesis by (simp add: answer_def)
  qed
next
  case (CallTimeline ident before after)
  show ?thesis
  proof (cases "Timeline flt s ident before after")
    case (Inl e)
    with CallTimeline show ?thesis by (simp add: answer_def)
  next
    case (Inr t)
    from Timeline_rows [OF Inr] CallTimeline Inr show ?thesis
      by (simp add: answer_def)
  qed
next
  case CallExport
  then show ?thesis
    by (cases "Export flt now s") (auto simp: answer_def dest: Export_rows)
qed (auto simp: answer_def ack_def split: prod.splits sum.splits option.splits)

subsection \<open>Writes keep the observations redacted\<close>

lemma insertOrIgnoreSession_observations [simp]:
  "observations (fst (insertOrIgnoreSession x d)) = observations d"
  by (simp add: insertOrIgnoreSession_def)

lemma insertPrompt_observations [simp]:
  "observations (snd (insertPrompt r d)) = observations d"
  by (simp add: insertPrompt_def Let_def)

lemma CreateSession_observations:
  "observations (db (snd (CreateSession flt now s ident project directory))) =
   observations (db s)"
  by (simp add: CreateSession_def split: option.splits)

lemma EndSession_observations:
  "observations (db (snd (EndSession flt now s ident summary))) = observations (db s)"
  by (simp add: EndSession_def updateSessionEnd_def split: option.splits)

lemma AddPrompt_observations:
  "observations (db (snd (AddPrompt flt now s p))) = observations (db s)"
  by (simp add: AddPrompt_def insertPrompt_def Let_def split: option.splits sum.splits)

lemma RecordSyncedChunk_observations:
  "observations (db (snd (RecordSyncedChunk flt now s chunkID))) = observations (db s)"
  by (simp add: RecordSyncedChunk_def split: option.splits)

lemma redactedDB_insert:
  "redactedDB d \<Longrightarrow> redacted (obsTexts row) \<Longrightarrow> redactedDB (snd (insertObservation row d))"
  by (simp add: redactedDB_def insertObservation_def Let_def obsTexts_def)

lemma AddObservation_redacted:
  assumes "redactedDB (db s)"
  shows "redactedDB (db (snd (AddObservation flt now s p)))"
proof (cases "truncateContent (MaxObservationLength (cfg s)) (stripPrivateTags (aop_Content p))")
  case (Inl e)
  with assms show ?thesis by (simp add: AddObservation_def)
next
  case (Inr content)
  have c: "\<not> matchPrivate content"
    using stripPrivateTags_clean Inr by (rule truncateContent_clean)
  show ?thesis
  proof (cases "flt 0")
    case (Some m)
    with assms Inr show ?thesis by (simp add: AddObservation_def)
  next
    case None
    let ?row = "\<lparr>obs_ID = 0, obs_SessionID = aop_SessionID p, obs_Type = aop_Type p,
                 obs_Title = stripPrivateTags (aop_Title p), obs_Content = content,
                 obs_ToolName = nullableString (aop_ToolName p),
                 obs_Project = nullableString (aop_Project p), obs_CreatedAt = now\<rparr>"
    have "redacted (obsTexts ?row)"
      using c by (simp add: redacted_def obsTexts_def stripPrivateTags_clean)
    with assms have "redactedDB (snd (insertObservation ?row (db s)))"
      by (rule redactedDB_insert)
    with Inr None show ?thesis
      by (simp add: AddObservation_def case_prod_beta Let_def)
  qed
qed

lemma importSessions_observations:
  "importSessions flt k xs d n = Inr (d', n') \<Longrightarrow> observations d' = observations d"
proof (induction xs arbitrary: k d n)
  case Nil
  then show ?case by simp
next
  case (Cons x xs)
  from Cons.prems obtain d1 a where
    "importSessions flt (Suc k) xs d1 (n + a) = Inr (d', n')"
    "d1 = fst (insertOrIgnoreSession x d)"
    by (auto split: option.splits prod.splits)
  with Cons.IH show ?case by simp
qed

lemma importPrompts_observations:
  "importPrompts flt k xs d n = Inr (d', n') \<Longrightarrow> observations d' = observations d"
proof (induction xs arbitrary: k d n)
  case Nil
  then show ?case by simp
next
  case (Cons x xs)
  from Cons.prems Cons.IH show ?case
    by (fastforce split: option.splits)
qed

lemma importObservations_redacted:
  "importObservations flt k xs d n = Inr (d', n') \<Longrightarrow> redactedDB d \<Longrightarrow>
   list_all (\<lambda>ob. redacted (obsTexts ob)) xs \<Longrightarrow> redactedDB d'"
proof (induction xs arbitrary: k d n)
  case Nil
  then show ?case by simp
next
  case (Cons x xs)
  from Cons.prems(1) have
    r: "importObservations flt (Suc k) xs (snd (insertObservation x d)) (n + 1) = Inr (d', n')"
    by (simp split: option.splits)
  from Cons.prems have "redactedDB (snd (insertObservation x d))"
    by (simp add: redactedDB_insert)
  with r Cons.prems(3) show ?case
    using Cons.IH by simp
qed

lemma Import_redacted:
  assumes "redactedDB (db s)" and "list_all (\<lambda>ob. redacted (obsTexts ob)) (ed_Observations data)"
  shows "redactedDB (db (snd (Import flt s data)))"
proof (cases "Import flt s data")
  case (Pair r s')
  show ?thesis
  proof (cases r)
    case (Inl e)
    with Pair have "s' = s"
      by (auto simp: Import_def Let_def split: option.splits sum.splits prod.splits)
    with Pair assms show ?thesis by simp
  next
    case (Inr res)
    with Pair obtain d1 ns d2 no d3 np k1 k2 where
      1: "importSessions flt 1 (ed_Sessions data) (db s) 0 = Inr (d1, ns)" and
      2: "importObservations flt k1 (ed_Observations data) d1 0 = Inr (d2, no)" and
      3: "importPrompts flt k2 (ed_Prompts data) d2 0 = Inr (d3, np)" and
      4: "s' = s\<lparr>db := d3\<rparr>"
      by (auto simp: Import_def Let_def split: option.splits sum.splits prod.splits)
    from 1 assms(1) have "redactedDB d1"
      by (simp add: redactedDB_def importSessions_observations)
    with 2 have "redactedDB d2" using assms(2) by (rule importObservations_redacted)
    with 3 have "redactedDB d3"
      by (simp add: redactedDB_def importPrompts_observations)
    with Pair 4 show ?thesis by simp
  qed
qed

lemma perform_redacted:
  assumes "redactedDB (db s)" and "redactedCall c"
  shows "redactedDB (db (snd (perform fts flt now s c)))"
proof (cases c)
  case (CallCreateSession ident project directory)
  with assms(1) show ?thesis
    using CreateSession_observations [of flt now s ident project directory]
    by (simp add: redactedDB_def case_prod_beta)
next
  case (CallEndSession ident summary)
  with assms(1) show ?thesis
    using EndSession_observations [of flt now s ident summary]
    by (simp add: redactedDB_def case_prod_beta)
next
  case (CallAddObservation p)
  with assms(1) show ?thesis
    using AddObservation_redacted [of s flt now p] by (simp add: case_prod_beta)
next
  case (CallAddPrompt p)
  with assms(1) show ?thesis
    using AddPrompt_observations [of flt now s p]
    by (simp add: redactedDB_def case_prod_beta)
next
  case (CallImport data)
  with assms show ?thesis
    using Import_redacted [of s data flt] by (simp add: case_prod_beta)
next
  case (CallRecordSyncedChunk chunkID)
  with assms(1) show ?thesis
    using RecordSyncedChunk_observations [of flt now s chunkID]
    by (simp add: redactedDB_def case_prod_beta)
qed (use assms(1) in simp_all)

lemma run_redacted:
  "redactedDB (db s) \<Longrightarrow> list_all (\<lambda>(flt, now, c). redactedCall c) cs \<Longrightarrow>
   redactedDB (db (run fts cs s))"
proof (induction cs arbitrary: s)
  case Nil
  then show ?case by simp
next
  case (Cons x cs)
  obtain flt now c where x: "x = (flt, now, c)" by (cases x)
  from Cons.prems have "redactedDB (db (snd (perform fts flt now s c)))"
    by (simp add: x perform_redacted)
  with Cons.prems(2) show ?case
    using Cons.IH by (simp add: x)
qed

lemma run_exampleCalls:
  "run fts exampleCalls (freshStore (DefaultConfig ''/home/u/.engram'')) =
     \<lparr>db = emptyDB\<lparr>
        sessions := [exampleSession\<lparr>sess_StartedAt := ''2025-01-01 10:00:00''\<rparr>],
        observations :=
          [\<lparr>obs_ID = 1, obs_SessionID = ''s1'', obs_Type = ''config'', obs_Title = ''API key'',
            obs_Content = ''key=[REDACTED] done'', obs_ToolName = None,
            obs_Project = Some ''acme'', obs_CreatedAt = ''2025-01-01 10:00:05''\<rparr>],
        observations_seq := 1\<rparr>,
      cfg = DefaultConfig ''/home/u/.engram''\<rparr>"
proof -
  have t: "stripPrivateTags ''API key'' = ''API key''"
    by (simp add: redactor_eval)
  have d: "stripPrivateTags ''key=<private>sk-123</private> done'' = ''key=[REDACTED] done''"
    by (simp add: redactor_eval)
  show ?thesis
    by (simp add: exampleCalls_def freshStore_def DefaultConfig_def emptyDB_def noFaults_def
        CreateSession_def insertOrIgnoreSession_def ack_def answer_def AddObservation_def
        exampleParams_def t d truncateContent_def insertObservation_def nullableString_def
        exampleSession_def)
qed

text \<open>
  Claim C1, as amended.  Start from a store whose observations hold no private span
  (a match of the redactor's pattern: an opening tag with a closing tag after it, in
  any letter case, see \<open>matchPrivate_iff\<close>) in title or content, and run any sequence
  of operations, under any
  behaviour of the engine, in which every imported snapshot carries only observations
  without private spans.  Then every observation that any operation returns
  (\<^verbatim>\<open>GetObservation\<close>, \<^verbatim>\<open>RecentObservations\<close>, \<^verbatim>\<open>AllObservations\<close>, \<^verbatim>\<open>SessionObservations\<close>,
  \<^verbatim>\<open>Search\<close>, \<^verbatim>\<open>Timeline\<close>, \<^verbatim>\<open>Export\<close>) holds no private span in title or content.
\<close>

theorem reads_return_redacted:
  assumes "redactedDB (db s)" and "list_all (\<lambda>(flt, now, c). redactedCall c) cs"
  shows "list_all redacted (returnedTexts (fst (perform fts flt now (run fts cs s) c)))"
proof -
  have "redactedDB (db (run fts cs s))" using assms by (rule run_redacted)
  then have "\<forall>tc \<in> obsTexts ` set (observations (db (run fts cs s))). redacted tc"
    by (simp add: redactedDB_def list_all_iff)
  with returnedTexts_rows [of fts flt now "run fts cs s" c]
  show ?thesis by (auto simp: list_all_iff)
qed

theorem reads_return_redacted_witness:
  "redactedDB (db (freshStore (DefaultConfig ''/home/u/.engram''))) \<and>
   list_all (\<lambda>(flt, now, c). redactedCall c) exampleCalls \<and>
   returnedTexts (fst (perform exampleFTS noFaults ''2025-01-01 10:01:00''
      (run exampleFTS exampleCalls (freshStore (DefaultConfig ''/home/u/.engram'')))
      (CallGetObservation 1))) = [(''API key'', ''key=[REDACTED] done'')] \<and>
   list_all redacted [(''API key'', ''key=[REDACTED] done'')]"
proof -
  have a: "redactedDB (db (freshStore (DefaultConfig ''/home/u/.engram'')))"
    by (simp add: redactedDB_def freshStore_def emptyDB_def)
  have b: "list_all (\<lambda>(flt, now, c). redactedCall c) exampleCalls"
    by (simp add: exampleCalls_def)
  have c: "returnedTexts (fst (perform exampleFTS noFaults ''2025-01-01 10:01:00''
      (run exampleFTS exampleCalls (freshStore (DefaultConfig ''/home/u/.engram'')))
      (CallGetObservation 1))) = [(''API key'', ''key=[REDACTED] done'')]"
    by (simp add: run_exampleCalls GetObservation_def queryRow_noFaults answer_def emptyDB_def
        obsTexts_def)
  from reads_return_redacted [OF a b, where fts = exampleFTS and flt = noFaults
      and now = "''2025-01-01 10:01:00''" and c = "CallGetObservation 1"] a b c
  show ?thesis by simp
qed

text \<open>
  The claim as stated speaks of the substring \<^verbatim>\<open><private>\<close>.  The pattern needs a
  closing tag to match, so an opening tag that is never closed is stored and returned
  as it came.
\<close>

theorem unclosed_tag_survives:
  "returnedTexts (fst (perform exampleFTS noFaults ''2025-01-01 10:01:00''
      (run exampleFTS unclosedCalls (freshStore (DefaultConfig ''/home/u/.engram'')))
      (CallGetObservation 1))) =
     [(''Use <private> tags'', ''Wrap a secret in <private> and close the tag'')] \<and>
   containsStr ''Use <private> tags'' ''<private>'' \<and>
   containsStr ''Wrap a secret in <private> and close the tag'' ''<private>''"
proof -
  have t: "stripPrivateTags ''Use <private> tags'' = ''Use <private> tags''"
    by (simp add: redactor_eval)
  have d: "stripPrivateTags ''Wrap a secret in <private> and close the tag'' =
      ''Wrap a secret in <private> and close the tag''"
    by (simp add: redactor_eval)
  show ?thesis
    by (simp add: unclosedCalls_def freshStore_def DefaultConfig_def emptyDB_def noFaults_def
        CreateSession_def insertOrIgnoreSession_def ack_def answer_def AddObservation_def
        unclosedParams_def t d truncateContent_def insertObservation_def nullableString_def
        GetObservation_def queryRow_def obsTexts_def)
qed

text \<open>\<^verbatim>\<open>Import\<close> inserts the titles and contents of a snapshot without passing them through
  the redactor.\<close>

lemma Import_keeps_private_span:
  "returnedTexts (fst (perform exampleFTS noFaults ''2025-01-01 10:01:00''
      (snd (Import noFaults (freshStore (DefaultConfig ''/home/u/.engram'')) leakySnapshot))
      (CallGetObservation 1))) = [(''token'', ''<private>sk-123</private>'')]"
  by (simp add: Import_def leakySnapshot_def noFaults_def freshStore_def emptyDB_def
      insertOrIgnoreSession_def insertObservation_def exampleObs_def exampleSession_def
      GetObservation_def queryRow_def answer_def obsTexts_def)

subsection \<open>Storage errors\<close>

lemma importSessions_fails:
  "k0 \<le> j \<Longrightarrow> j < k0 + length xs \<Longrightarrow> flt j = Some m \<Longrightarrow>
   \<exists>e. importSessions flt k0 xs d n = Inl e"
proof (induction xs arbitrary: k0 d n)
  case Nil
  then show ?case by simp
next
  case (Cons x xs)
  show ?case
  proof (cases "flt k0")
    case (Some m')
    then show ?thesis by simp
  next
    case None
    with Cons.prems have "Suc k0 \<le> j" "j < Suc k0 + length xs"
      by (auto simp: le_less Suc_le_eq)
    from Cons.IH [OF this Cons.prems(3)] None show ?thesis
      by (simp add: case_prod_beta)
  qed
qed

lemma importObservations_fails:
  "k0 \<le> j \<Longrightarrow> j < k0 + length xs \<Longrightarrow> flt j = Some m \<Longrightarrow>
   \<exists>e. importObservations flt k0 xs d n = Inl e"
proof (induction xs arbitrary: k0 d n)
  case Nil
  then show ?case by simp
next
  case (Cons x xs)
  show ?case
  proof (cases "flt k0")
    case (Some m')
    then show ?thesis by simp
  next
    case None
    with Cons.prems have "Suc k0 \<le> j" "j < Suc k0 + length xs"
      by (auto simp: le_less Suc_le_eq)
    from Cons.IH [OF this Cons.prems(3)] None show ?thesis
      by simp
  qed
qed

lemma importPrompts_fails:
  "k0 \<le> j \<Longrightarrow> j < k0 + length xs \<Longrightarrow> flt j = Some m \<Longrightarrow>
   \<exists>e. importPrompts flt k0 xs d n = Inl e"
proof (induction xs arbitrary: k0 d n)
  case Nil
  then show ?case by simp
next
  case (Cons x xs)
  show ?case
  proof (cases "flt k0")
    case (Some m')
    then show ?thesis by simp
  next
    case None
    with Cons.prems have "Suc k0 \<le> j" "j < Suc k0 + length xs"
      by (auto simp: le_less Suc_le_eq)
    from Cons.IH [OF this Cons.prems(3)] None show ?thesis
      by simp
  qed
qed

lemma Import_Inl: "Import flt s data = (Inl e, s') \<Longrightarrow> s' = s"
  by (auto simp: Import_def Let_def split: option.splits sum.splits prod.splits)

lemma Import_Inr:
  assumes "Import flt s data = (Inr res, s')"
  shows "flt 0 = None"
    and "\<exists>d n. importSessions flt 1 (ed_Sessions data) (db s) 0 = Inr (d, n)"
    and "\<exists>d0 d n. importObservations flt (1 + length (ed_Sessions data))
           (ed_Observations data) d0 0 = Inr (d, n)"
    and "\<exists>d0 d n. importPrompts flt
           (1 + length (ed_Sessions data) + length (ed_Observations data))
           (ed_Prompts data) d0 0 = Inr (d, n)"
    and "flt (1 + length (ed_Sessions data) + length (ed_Observations data) +
           length (ed_Prompts data)) = None"
  using assms
  by (auto simp: Import_def Let_def split: option.splits sum.splits prod.splits)

lemma Import_fails:
  assumes "k < importStatements data" and "flt k = Some m"
  shows "\<exists>e. Import flt s data = (Inl e, s)"
proof (cases "Import flt s data")
  case (Pair r s')
  show ?thesis
  proof (cases r)
    case (Inl e)
    with Pair Import_Inl show ?thesis by fastforce
  next
    case (Inr res)
    let ?k1 = "1 + length (ed_Sessions data)"
    let ?k2 = "?k1 + length (ed_Observations data)"
    let ?k3 = "?k2 + length (ed_Prompts data)"
    note ok = Import_Inr [OF Pair [unfolded Inr]]
    consider "k = 0" | "1 \<le> k" "k < ?k1" | "?k1 \<le> k" "k < ?k2" | "?k2 \<le> k" "k < ?k3"
      | "k = ?k3"
      using assms(1) by (auto simp: importStatements_def) linarith
    then have False
    proof cases
      case 1
      with assms(2) ok(1) show False by simp
    next
      case 2
      then have "k < 1 + length (ed_Sessions data)" by simp
      from importSessions_fails [where flt = flt, OF 2(1) this assms(2)]
      obtain e where "importSessions flt 1 (ed_Sessions data) (db s) 0 = Inl e" by blast
      with ok(2) show False by simp
    next
      case 3
      from ok(3) obtain d0 d n where
        "importObservations flt ?k1 (ed_Observations data) d0 0 = Inr (d, n)" by blast
      moreover from importObservations_fails [where flt = flt, OF 3 assms(2)]
      obtain e where "importObservations flt ?k1 (ed_Observations data) d0 0 = Inl e" by blast
      ultimately show False by simp
    next
      case 4
      from ok(4) obtain d0 d n where
        "importPrompts flt ?k2 (ed_Prompts data) d0 0 = Inr (d, n)" by blast
      moreover from importPrompts_fails [where flt = flt, OF 4 assms(2)]
      obtain e where "importPrompts flt ?k2 (ed_Prompts data) d0 0 = Inl e" by blast
      ultimately show False by simp
    next
      case 5
      with assms(2) ok(5) show False by simp
    qed
    then show ?thesis ..
  qed
qed

lemma Timeline_fails:
  assumes "k \<in> {0, 2, 3}" and "flt k = Some m"
  shows "\<exists>e. Timeline flt s ident before after = Inl e"
  using assms
  by (auto simp: Timeline_def Let_def GetObservation_def queryRow_def stmt_def
      split: option.splits sum.splits list.splits)

text \<open>\<^verbatim>\<open>Timeline\<close> goes on when the lookup of the session or the count fails.\<close>

lemma Timeline_tolerates:
  assumes "GetObservation flt s ident = Inr focus" and "flt 2 = None" and "flt 3 = None"
  shows "\<exists>t. Timeline flt s ident before after = Inr t \<and>
           (flt 1 \<noteq> None \<longrightarrow> SessionInfo t = None) \<and>
           (flt 4 \<noteq> None \<longrightarrow> TotalInRange t = 0)"
  using assms
  by (auto simp: Timeline_def Let_def stmt_def countRow_def GetSession_def queryRow_def
      shiftFaults_def)

lemma RecentSessions_fails:
  "flt 0 = Some m \<Longrightarrow> RecentSessions flt s project limit = Inl (ErrStorage m)"
  by (simp add: RecentSessions_def stmt_def)

lemma RecentObservations_fails:
  "flt 0 = Some m \<Longrightarrow> RecentObservations flt s project limit = Inl (ErrStorage m)"
  by (simp add: RecentObservations_def stmt_def)

lemma RecentPrompts_fails:
  "flt 0 = Some m \<Longrightarrow> RecentPrompts flt s project limit = Inl (ErrStorage m)"
  by (simp add: RecentPrompts_def)

lemma FormatContext_fails:
  assumes "k \<in> {0, 1, 2}" and "flt k = Some m"
  shows "\<exists>e. FormatContext flt s project = Inl e"
proof -
  from assms consider "flt 0 = Some m" | "shiftFaults 1 flt 0 = Some m"
    | "shiftFaults 2 flt 0 = Some m"
    by (auto simp: shiftFaults_def numeral_2_eq_2)
  then show ?thesis
  proof cases
    case 1
    then show ?thesis
      by (simp add: FormatContext_def RecentSessions_fails)
  next
    case 2
    then show ?thesis
      by (simp add: FormatContext_def RecentObservations_fails split: sum.splits)
  next
    case 3
    then show ?thesis
      by (simp add: FormatContext_def RecentPrompts_fails split: sum.splits)
  qed
qed

lemma Export_fails:
  assumes "k \<in> {0, 1, 2}" and "flt k = Some m"
  shows "\<exists>e. Export flt now s = Inl e"
  using assms by (auto simp: Export_def split: option.splits sum.splits)

text \<open>
  Claim C8, as amended.  When the engine rejects a statement of an operation, the
  operation returns an error and leaves the store as it was, for every statement of
  every operation except the four statements of \<^verbatim>\<open>Stats\<close> and, in \<^verbatim>\<open>Timeline\<close>, the lookup
  of the session and the count of the session's observations; \<^verbatim>\<open>Stats\<close> returns a
  result and no error whatever the engine does.  (Under a negative
  \<^verbatim>\<open>MaxObservationLength\<close> the slice in \<^verbatim>\<open>AddObservation\<close> and \<^verbatim>\<open>AddPrompt\<close> can panic
  before the statement is issued; the caller gets no result then either.)
\<close>

theorem storage_errors_propagate:
  assumes "k \<in> set (propagatedStatements c)" and "flt k = Some m"
  shows "(\<exists>e. perform fts flt now s c = (Failed e, s)) \<and>
         (\<exists>st. perform fts flt now s CallStats = (GotStats st, s))"
proof
  show "\<exists>st. perform fts flt now s CallStats = (GotStats st, s)"
    by (simp add: Stats_def answer_def)
  show "\<exists>e. perform fts flt now s c = (Failed e, s)"
  proof (cases c)
    case (CallTimeline ident before after)
    with assms Timeline_fails [of k flt m s ident before after] show ?thesis
      by (auto simp: answer_def)
  next
    case (CallFormatContext project)
    with assms FormatContext_fails [of k flt m s project] show ?thesis
      by (auto simp: answer_def)
  next
    case CallExport
    with assms Export_fails [of k flt m now s] show ?thesis
      by (auto simp: answer_def)
  next
    case (CallImport data)
    with assms Import_fails [of k data flt m s] show ?thesis
      by (auto simp: answer_def)
  next
    case CallStats
    with assms show ?thesis by simp
  next
    case (CallAddObservation p)
    with assms show ?thesis
      by (auto simp: answer_def AddObservation_def Let_def split: sum.splits)
  next
    case (CallAddPrompt p)
    with assms show ?thesis
      by (auto simp: answer_def AddPrompt_def Let_def split: sum.splits)
  qed (use assms in \<open>auto simp: answer_def ack_def CreateSession_def EndSession_def GetSession_def
        queryRow_def RecentSessions_def AllSessions_def AllObservations_def
        SessionObservations_def RecentObservations_def RecentPrompts_def SearchPrompts_def
        GetObservation_def Search_def GetSyncedChunks_def RecordSyncedChunk_def stmt_def Let_def\<close>)
qed

theorem storage_errors_propagate_witness:
  "2 \<in> set (propagatedStatements (CallTimeline 3 1 0)) \<and>
   oneFault 2 2 = Some ''disk I/O error'' \<and>
   perform exampleFTS (oneFault 2) ''2025-01-01 10:01:00'' smallStore (CallTimeline 3 1 0) =
     (Failed (Wrap ''timeline: before query'' (ErrStorage ''disk I/O error'')), smallStore) \<and>
   perform exampleFTS (oneFault 2) ''2025-01-01 10:01:00'' smallStore CallStats =
     (GotStats \<lparr>TotalSessions = 1, TotalObservations = 5, TotalPrompts = 0,
        Projects = [''acme'']\<rparr>, smallStore)"
proof -
  have a: "2 \<in> set (propagatedStatements (CallTimeline 3 1 0))" by simp
  have b: "oneFault 2 2 = Some ''disk I/O error''" by (simp add: oneFault_def)
  have c: "perform exampleFTS (oneFault 2) ''2025-01-01 10:01:00'' smallStore (CallTimeline 3 1 0) =
     (Failed (Wrap ''timeline: before query'' (ErrStorage ''disk I/O error'')), smallStore)"
    by (simp add: Timeline_def GetObservation_def queryRow_def oneFault_def smallStore_def
        emptyDB_def exampleObs_def stmt_def answer_def GetSession_def shiftFaults_def)
  have d: "perform exampleFTS (oneFault 2) ''2025-01-01 10:01:00'' smallStore CallStats =
     (GotStats \<lparr>TotalSessions = 1, TotalObservations = 5, TotalPrompts = 0,
        Projects = [''acme'']\<rparr>, smallStore)"
    by (simp add: Stats_def countRow_def oneFault_def smallStore_def emptyDB_def exampleObs_def
        answer_def List.map_filter_def)
  from storage_errors_propagate [where flt = "oneFault 2" and fts = exampleFTS
      and now = "''2025-01-01 10:01:00''" and s = smallStore, OF a b]
    a b c d
  show ?thesis by simp
qed

text \<open>
  The claim as stated covers \<^verbatim>\<open>Stats\<close>.  On a store with one session and an engine that
  rejects every statement, \<^verbatim>\<open>Stats\<close> returns counts of zero and no error.
\<close>

theorem Stats_swallows_errors:
  "Stats allFaults exampleStore =
     Inr \<lparr>TotalSessions = 0, TotalObservations = 0, TotalPrompts = 0, Projects = []\<rparr> \<and>
   length (sessions (db exampleStore)) = 1"
  by (simp add: Stats_def allFaults_def countRow_def exampleStore_def emptyDB_def)

subsection \<open>AddObservation\<close>

lemma seqInv_fresh:
  "seqInv d \<Longrightarrow> filter (\<lambda>ob. obs_ID ob = observations_seq d + 1) (observations d) = []"
  by (auto simp: seqInv_def list_all_iff filter_empty_conv)

lemma seqInv_insert: "seqInv d \<Longrightarrow> seqInv (snd (insertObservation row d))"
  by (auto simp: seqInv_def insertObservation_def Let_def list_all_iff)

lemma seqInv_cong:
  "observations d' = observations d \<Longrightarrow> observations_seq d' = observations_seq d \<Longrightarrow>
   seqInv d' = seqInv d"
  by (simp add: seqInv_def)

lemma importSessions_seq:
  "importSessions flt k xs d n = Inr (d', n') \<Longrightarrow>
   observations d' = observations d \<and> observations_seq d' = observations_seq d"
proof (induction xs arbitrary: k d n)
  case Nil
  then show ?case by simp
next
  case (Cons x xs)
  from Cons.prems have
    "importSessions flt (Suc k) xs (fst (insertOrIgnoreSession x d))
       (n + snd (insertOrIgnoreSession x d)) = Inr (d', n')"
    by (simp add: case_prod_beta split: option.splits)
  from Cons.IH [OF this] show ?case by (simp add: insertOrIgnoreSession_def)
qed

lemma importPrompts_seq:
  "importPrompts flt k xs d n = Inr (d', n') \<Longrightarrow>
   observations d' = observations d \<and> observations_seq d' = observations_seq d"
proof (induction xs arbitrary: k d n)
  case Nil
  then show ?case by simp
next
  case (Cons x xs)
  let ?d = "snd (insertPrompt
               \<lparr>prow_ID = 0, prow_SessionID = pr_SessionID x, prow_Content = pr_Content x,
                prow_Project = Some (pr_Project x), prow_CreatedAt = pr_CreatedAt x\<rparr> d)"
  from Cons.prems have "importPrompts flt (Suc k) xs ?d (n + 1) = Inr (d', n')"
    by (simp split: option.splits)
  from Cons.IH [OF this] show ?case by (simp add: insertPrompt_def Let_def)
qed

lemma importObservations_seqInv:
  "importObservations flt k xs d n = Inr (d', n') \<Longrightarrow> seqInv d \<Longrightarrow> seqInv d'"
proof (induction xs arbitrary: k d n)
  case Nil
  then show ?case by simp
next
  case (Cons x xs)
  from Cons.prems(1) have
    "importObservations flt (Suc k) xs (snd (insertObservation x d)) (n + 1) = Inr (d', n')"
    by (simp split: option.splits)
  moreover from Cons.prems(2) have "seqInv (snd (insertObservation x d))"
    by (rule seqInv_insert)
  ultimately show ?case by (rule Cons.IH)
qed

lemma Import_seqInv:
  assumes "seqInv (db s)"
  shows "seqInv (db (snd (Import flt s data)))"
proof (cases "Import flt s data")
  case (Pair r s')
  show ?thesis
  proof (cases r)
    case (Inl e)
    with Pair Import_Inl have "s' = s" by fastforce
    with Pair assms show ?thesis by simp
  next
    case (Inr res)
    with Pair obtain d1 ns d2 no d3 np k1 k2 where
      1: "importSessions flt 1 (ed_Sessions data) (db s) 0 = Inr (d1, ns)" and
      2: "importObservations flt k1 (ed_Observations data) d1 0 = Inr (d2, no)" and
      3: "importPrompts flt k2 (ed_Prompts data) d2 0 = Inr (d3, np)" and
      4: "s' = s\<lparr>db := d3\<rparr>"
      by (auto simp: Import_def Let_def split: option.splits sum.splits prod.splits)
    from importSessions_seq [OF 1] assms have "seqInv d1" by (simp add: seqInv_def)
    with 2 have "seqInv d2" by (rule importObservations_seqInv)
    with importPrompts_seq [OF 3] have "seqInv d3" by (simp add: seqInv_def)
    with Pair 4 show ?thesis by simp
  qed
qed

lemma AddObservation_seqInv:
  "seqInv (db s) \<Longrightarrow> seqInv (db (snd (AddObservation flt now s p)))"
  by (auto simp: AddObservation_def Let_def case_prod_beta seqInv_insert
      split: sum.splits option.splits)

lemma perform_seqInv:
  assumes "seqInv (db s)"
  shows "seqInv (db (snd (perform fts flt now s c)))"
proof (cases c)
  case (CallCreateSession ident project directory)
  with assms show ?thesis
    by (simp add: case_prod_beta CreateSession_def insertOrIgnoreSession_def seqInv_def
        split: option.splits)
next
  case (CallEndSession ident summary)
  with assms show ?thesis
    by (simp add: case_prod_beta EndSession_def updateSessionEnd_def seqInv_def
        split: option.splits)
next
  case (CallAddObservation p)
  with assms show ?thesis
    by (simp add: case_prod_beta AddObservation_seqInv)
next
  case (CallAddPrompt p)
  with assms show ?thesis
    by (simp add: case_prod_beta AddPrompt_def insertPrompt_def Let_def seqInv_def
        split: option.splits sum.splits)
next
  case (CallImport data)
  with assms show ?thesis
    by (simp add: case_prod_beta Import_seqInv)
next
  case (CallRecordSyncedChunk chunkID)
  with assms show ?thesis
    by (simp add: case_prod_beta RecordSyncedChunk_def seqInv_def split: option.splits)
qed (use assms in simp_all)

lemma run_seqInv: "seqInv (db s) \<Longrightarrow> seqInv (db (run fts cs s))"
proof (induction cs arbitrary: s)
  case Nil
  then show ?case by simp
next
  case (Cons x cs)
  obtain flt now c where x: "x = (flt, now, c)" by (cases x)
  from Cons.prems have "seqInv (db (snd (perform fts flt now s c)))"
    by (rule perform_seqInv)
  then show ?case using Cons.IH by (simp add: x)
qed

lemma seqInv_freshStore: "seqInv (db (run fts cs (freshStore c)))"
  by (rule run_seqInv) (simp add: seqInv_def freshStore_def emptyDB_def)

text \<open>
  Claim C2.  An \<^verbatim>\<open>AddObservation\<close> whose \<^verbatim>\<open>INSERT\<close> the engine accepts, on a store with a
  non-negative \<^verbatim>\<open>MaxObservationLength\<close> whose rows respect the counter of the table (as
  they do after any sequence of operations on a new store), returns an id that no row
  had before and under which \<^verbatim>\<open>GetObservation\<close> then finds the new row.  With \<open>c\<close> the
  redacted content, the row's content is \<open>c\<close> itself when \<open>c\<close> has at most
  \<^verbatim>\<open>MaxObservationLength\<close> bytes (so also at exactly that length) and otherwise the first
  \<^verbatim>\<open>MaxObservationLength\<close> bytes of \<open>c\<close> followed by the truncation marker; its title is
  the redacted title.
\<close>

theorem AddObservation_stores:
  assumes "seqInv (db s)" and "0 \<le> MaxObservationLength (cfg s)" and "flt 0 = None"
  shows "case AddObservation flt now s p of
           (Inl e, s') \<Rightarrow> False
         | (Inr ident, s') \<Rightarrow>
             GetObservation noFaults s ident = Inl ErrNoRows \<and>
             GetObservation noFaults s' ident =
               Inr \<lparr>obs_ID = ident, obs_SessionID = aop_SessionID p, obs_Type = aop_Type p,
                    obs_Title = stripPrivateTags (aop_Title p),
                    obs_Content =
                      (let c = stripPrivateTags (aop_Content p);
                           n = nat (MaxObservationLength (cfg s))
                       in if length c \<le> n then c else take n c @ ''... [truncated]''),
                    obs_ToolName = nullableString (aop_ToolName p),
                    obs_Project = nullableString (aop_Project p),
                    obs_CreatedAt = now\<rparr>"
proof -
  let ?c = "stripPrivateTags (aop_Content p)"
  let ?n = "nat (MaxObservationLength (cfg s))"
  have t: "truncateContent (MaxObservationLength (cfg s)) ?c =
             Inr (if length ?c \<le> ?n then ?c else take ?n ?c @ ''... [truncated]'')"
    using assms(2) by (auto simp: truncateContent_def)
  show ?thesis
    using assms(3) seqInv_fresh [OF assms(1)]
    by (simp add: AddObservation_def t insertObservation_def Let_def GetObservation_def
        queryRow_noFaults)
qed

theorem AddObservation_stores_witness:
  "seqInv (db exampleStore) \<and>
   0 \<le> MaxObservationLength (cfg exampleStore) \<and>
   noFaults 0 = None \<and>
   GetObservation noFaults
     (snd (AddObservation noFaults ''2025-01-01 10:00:05'' exampleStore exampleParams)) 1 =
     Inr \<lparr>obs_ID = 1, obs_SessionID = ''s1'', obs_Type = ''config'', obs_Title = ''API key'',
          obs_Content = ''key=[REDACTED] done'', obs_ToolName = None,
          obs_Project = Some ''acme'', obs_CreatedAt = ''2025-01-01 10:00:05''\<rparr>"
proof -
  have a: "seqInv (db exampleStore)" by (simp add: seqInv_def exampleStore_def emptyDB_def)
  have b: "0 \<le> MaxObservationLength (cfg exampleStore)"
    by (simp add: exampleStore_def DefaultConfig_def)
  have c: "noFaults 0 = None" by (simp add: noFaults_def)
  have t: "stripPrivateTags ''API key'' = ''API key''"
    by (simp add: redactor_eval)
  have d: "stripPrivateTags ''key=<private>sk-123</private> done'' = ''key=[REDACTED] done''"
    by (simp add: redactor_eval)
  have i: "fst (AddObservation noFaults ''2025-01-01 10:00:05'' exampleStore exampleParams) = Inr 1"
    by (simp add: AddObservation_def exampleParams_def t d truncateContent_def exampleStore_def
        DefaultConfig_def noFaults_def insertObservation_def emptyDB_def)
  from AddObservation_stores [where flt = noFaults and now = "''2025-01-01 10:00:05''"
      and p = exampleParams, OF a b c] i
  have "GetObservation noFaults
     (snd (AddObservation noFaults ''2025-01-01 10:00:05'' exampleStore exampleParams)) 1 =
     Inr \<lparr>obs_ID = 1, obs_SessionID = ''s1'', obs_Type = ''config'', obs_Title = ''API key'',
          obs_Content = ''key=[REDACTED] done'', obs_ToolName = None,
          obs_Project = Some ''acme'', obs_CreatedAt = ''2025-01-01 10:00:05''\<rparr>"
    by (cases "AddObservation noFaults ''2025-01-01 10:00:05'' exampleStore exampleParams")
       (simp add: t d exampleStore_def DefaultConfig_def exampleParams_def nullableString_def)
  with a b c show ?thesis by simp
qed

subsection \<open>Timeline\<close>

text \<open>An entry carries every column of its row, and is never marked as the focus.\<close>

lemma toEntry_fields [simp]:
  "te_ID (toEntry ob) = obs_ID ob" "te_SessionID (toEntry ob) = obs_SessionID ob"
  "te_Type (toEntry ob) = obs_Type ob" "te_Title (toEntry ob) = obs_Title ob"
  "te_Content (toEntry ob) = obs_Content ob" "te_ToolName (toEntry ob) = obs_ToolName ob"
  "te_Project (toEntry ob) = obs_Project ob" "te_CreatedAt (toEntry ob) = obs_CreatedAt ob"
  "te_IsFocus (toEntry ob) = False"
  by (simp_all add: toEntry_def)

lemma toEntry_inj: "toEntry a = toEntry b \<Longrightarrow> a = b"
  by (cases a; cases b) (simp add: toEntry_def)

lemma Timeline_working_engine:
  "Timeline noFaults s pivot before after =
     (case find (\<lambda>ob. obs_ID ob = pivot) (observations (db s)) of
        None \<Rightarrow>
          Inl (Wrap (''timeline: observation #'' @ intToDec pivot @ '' not found'') ErrNoRows)
      | Some focus \<Rightarrow>
          Inr \<lparr>Focus = focus,
               Before = map toEntry
                 (lastN (nat (if before \<le> 0 then 5 else before))
                    (sort_key obs_ID
                       (filter (\<lambda>ob. obs_SessionID ob = obs_SessionID focus \<and> obs_ID ob < pivot)
                          (observations (db s))))),
               After = map toEntry
                 (take (nat (if after \<le> 0 then 5 else after))
                    (sort_key obs_ID
                       (filter (\<lambda>ob. obs_SessionID ob = obs_SessionID focus \<and> obs_ID ob > pivot)
                          (observations (db s))))),
               SessionInfo = find (\<lambda>x. sess_ID x = obs_SessionID focus) (sessions (db s)),
               TotalInRange =
                 int (length (filter (\<lambda>ob. obs_SessionID ob = obs_SessionID focus)
                    (observations (db s))))\<rparr>)"
proof (cases "filter (\<lambda>ob. obs_ID ob = pivot) (observations (db s))")
  case Nil
  then have "find (\<lambda>ob. obs_ID ob = pivot) (observations (db s)) = None"
    by (simp add: find_filter_hd)
  with Nil show ?thesis
    by (simp add: Timeline_def GetObservation_def queryRow_noFaults)
next
  case (Cons focus rest)
  then have f: "find (\<lambda>ob. obs_ID ob = pivot) (observations (db s)) = Some focus"
    by (simp add: find_filter_hd)
  have g: "GetObservation noFaults s pivot = Inr focus"
    using Cons by (simp add: GetObservation_def queryRow_noFaults)
  have h: "(case GetSession noFaults s (obs_SessionID focus) of
              Inl e \<Rightarrow> None | Inr x \<Rightarrow> Some x) =
           find (\<lambda>x. sess_ID x = obs_SessionID focus) (sessions (db s))"
    by (simp add: GetSession_def queryRow_noFaults find_filter_hd split: list.splits)
  show ?thesis
    unfolding Timeline_def Let_def g f
    by (simp add: h sqlLimit_def orderByDesc_def orderByAsc_def rev_map rev_take_rev)
qed

lemma find_Some_holds: "find P xs = Some x \<Longrightarrow> P x \<and> x \<in> set xs"
  by (induction xs) (auto split: if_splits)

lemma sorted_lastN: "sorted xs \<Longrightarrow> sorted (lastN n xs)"
  by (simp add: lastN_def sorted_wrt_drop)

lemma set_lastN: "set (lastN n xs) \<subseteq> set xs"
  by (auto simp: lastN_def dest: in_set_dropD)

lemma map_lastN: "map f (lastN n xs) = lastN n (map f xs)"
  by (simp add: lastN_def drop_map)

lemma sorted_split_le:
  assumes "sorted (map f xs)" and "x \<in> set (take k xs)" and "y \<in> set (drop k xs)"
  shows "f x \<le> f y"
proof -
  have "sorted (map f (take k xs) @ map f (drop k xs))"
    using assms(1) by (metis append_take_drop_id map_append)
  then show ?thesis using assms(2,3) by (auto simp: sorted_append)
qed

lemma set_take_drop: "x \<in> set xs \<Longrightarrow> x \<in> set (take k xs) \<or> x \<in> set (drop k xs)"
  by (metis Un_iff append_take_drop_id set_append)

text \<open>What the two windows hold, read off the entries that \<^verbatim>\<open>Timeline\<close> returns: their ids
  ascend, lie on the right side of the pivot and belong to rows of the pivot's session
  (\<open>Timeline_windows\<close>), and a row of the session left out of a window is at least as far
  from the pivot as every entry of the window (\<open>Timeline_nearest\<close>).\<close>

lemma Timeline_windows:
  assumes "Timeline noFaults s pivot before after = Inr t"
  shows "obs_ID (Focus t) = pivot"
    and "sorted (map te_ID (Before t))" and "sorted (map te_ID (After t))"
    and "length (Before t) \<le> nat (if before \<le> 0 then 5 else before)"
    and "length (After t) \<le> nat (if after \<le> 0 then 5 else after)"
    and "\<forall>e \<in> set (Before t). te_ID e < pivot \<and> te_SessionID e = obs_SessionID (Focus t) \<and>
           \<not> te_IsFocus e \<and> (\<exists>ob \<in> set (observations (db s)). e = toEntry ob)"
    and "\<forall>e \<in> set (After t). pivot < te_ID e \<and> te_SessionID e = obs_SessionID (Focus t) \<and>
           \<not> te_IsFocus e \<and> (\<exists>ob \<in> set (observations (db s)). e = toEntry ob)"
proof -
  from assms obtain focus where
    f: "find (\<lambda>ob. obs_ID ob = pivot) (observations (db s)) = Some focus"
    by (cases "find (\<lambda>ob. obs_ID ob = pivot) (observations (db s))")
       (simp_all add: Timeline_working_engine)
  let ?B = "sort_key obs_ID
     (filter (\<lambda>ob. obs_SessionID ob = obs_SessionID focus \<and> obs_ID ob < pivot)
        (observations (db s)))"
  let ?A = "sort_key obs_ID
     (filter (\<lambda>ob. obs_SessionID ob = obs_SessionID focus \<and> obs_ID ob > pivot)
        (observations (db s)))"
  from assms f have t: "Focus t = focus"
    "Before t = map toEntry (lastN (nat (if before \<le> 0 then 5 else before)) ?B)"
    "After t = map toEntry (take (nat (if after \<le> 0 then 5 else after)) ?A)"
    by (auto simp: Timeline_working_engine)
  show "obs_ID (Focus t) = pivot" using find_Some_holds [OF f] t(1) by simp
  have "map te_ID (Before t) = lastN (nat (if before \<le> 0 then 5 else before)) (map obs_ID ?B)"
    by (simp add: t(2) map_lastN [symmetric] comp_def)
  then show "sorted (map te_ID (Before t))" by (simp add: sorted_lastN)
  have "map te_ID (After t) = take (nat (if after \<le> 0 then 5 else after)) (map obs_ID ?A)"
    by (simp add: t(3) take_map comp_def)
  then show "sorted (map te_ID (After t))" by (simp add: sorted_wrt_take)
  show "length (Before t) \<le> nat (if before \<le> 0 then 5 else before)"
    by (simp add: t(2) lastN_def)
  show "length (After t) \<le> nat (if after \<le> 0 then 5 else after)"
    by (simp add: t(3))
  show "\<forall>e \<in> set (Before t). te_ID e < pivot \<and> te_SessionID e = obs_SessionID (Focus t) \<and>
           \<not> te_IsFocus e \<and> (\<exists>ob \<in> set (observations (db s)). e = toEntry ob)"
    using set_lastN [of "nat (if before \<le> 0 then 5 else before)" ?B]
    by (auto simp: t(1,2))
  show "\<forall>e \<in> set (After t). pivot < te_ID e \<and> te_SessionID e = obs_SessionID (Focus t) \<and>
           \<not> te_IsFocus e \<and> (\<exists>ob \<in> set (observations (db s)). e = toEntry ob)"
    by (auto simp: t(1,3) dest!: in_set_takeD)
qed

lemma Timeline_nearest:
  assumes "Timeline noFaults s pivot before after = Inr t"
    and "ob \<in> set (observations (db s))" and "obs_SessionID ob = obs_SessionID (Focus t)"
  shows "obs_ID ob < pivot \<Longrightarrow> toEntry ob \<notin> set (Before t) \<Longrightarrow>
           \<forall>e \<in> set (Before t). obs_ID ob \<le> te_ID e"
    and "pivot < obs_ID ob \<Longrightarrow> toEntry ob \<notin> set (After t) \<Longrightarrow>
           \<forall>e \<in> set (After t). te_ID e \<le> obs_ID ob"
proof -
  from assms(1) obtain focus where
    f: "find (\<lambda>ob. obs_ID ob = pivot) (observations (db s)) = Some focus"
    by (cases "find (\<lambda>ob. obs_ID ob = pivot) (observations (db s))")
       (simp_all add: Timeline_working_engine)
  let ?B = "sort_key obs_ID
     (filter (\<lambda>ob. obs_SessionID ob = obs_SessionID focus \<and> obs_ID ob < pivot)
        (observations (db s)))"
  let ?A = "sort_key obs_ID
     (filter (\<lambda>ob. obs_SessionID ob = obs_SessionID focus \<and> obs_ID ob > pivot)
        (observations (db s)))"
  let ?k = "length ?B - nat (if before \<le> 0 then 5 else before)"
  let ?n = "nat (if after \<le> 0 then 5 else after)"
  from assms(1) f have t: "Focus t = focus"
    "Before t = map toEntry (drop ?k ?B)" "After t = map toEntry (take ?n ?A)"
    by (auto simp: Timeline_working_engine lastN_def)
  have sB: "sorted (map obs_ID ?B)" and sA: "sorted (map obs_ID ?A)" by simp_all
  show "\<forall>e \<in> set (Before t). obs_ID ob \<le> te_ID e"
    if "obs_ID ob < pivot" "toEntry ob \<notin> set (Before t)"
  proof
    fix e assume "e \<in> set (Before t)"
    then obtain y where y: "y \<in> set (drop ?k ?B)" "e = toEntry y" by (auto simp: t(2))
    from that(1) assms(2,3) have "ob \<in> set ?B" by (simp add: t(1))
    moreover from that(2) have "ob \<notin> set (drop ?k ?B)" by (auto simp: t(2))
    ultimately have "ob \<in> set (take ?k ?B)" using set_take_drop by fastforce
    from sorted_split_le [OF sB this y(1)] y(2) show "obs_ID ob \<le> te_ID e" by simp
  qed
  show "\<forall>e \<in> set (After t). te_ID e \<le> obs_ID ob"
    if "pivot < obs_ID ob" "toEntry ob \<notin> set (After t)"
  proof
    fix e assume "e \<in> set (After t)"
    then obtain y where y: "y \<in> set (take ?n ?A)" "e = toEntry y" by (auto simp: t(3))
    from that(1) assms(2,3) have "ob \<in> set ?A" by (simp add: t(1))
    moreover from that(2) have "ob \<notin> set (take ?n ?A)" by (auto simp: t(3))
    ultimately have "ob \<in> set (drop ?n ?A)" using set_take_drop by fastforce
    from sorted_split_le [OF sA y(1) this] y(2) show "te_ID e \<le> obs_ID ob" by simp
  qed
qed

text \<open>
  Claim C5.  When the engine answers every statement: without an observation of the
  given id \<^verbatim>\<open>Timeline\<close> fails with the wrapped \<^verbatim>\<open>sql.ErrNoRows\<close>; otherwise it returns the
  pivot as focus, the last \<open>before\<close> of the same session's observations with a smaller
  id and the first \<open>after\<close> of those with a larger id, both in ascending order of id
  and each entry with the id, session, type, title, content, tool name, project and
  creation time of its observation, the session row (none when the session has no
  row) and the number of observations of the session.  A count that is not positive
  stands for 5.
\<close>

theorem Timeline_neighbourhood:
  "Timeline noFaults s pivot before after =
     (case find (\<lambda>ob. obs_ID ob = pivot) (observations (db s)) of
        None \<Rightarrow>
          Inl (Wrap (''timeline: observation #'' @ intToDec pivot @ '' not found'') ErrNoRows)
      | Some focus \<Rightarrow>
          Inr \<lparr>Focus = focus,
               Before =
                 map (\<lambda>ob. \<lparr>te_ID = obs_ID ob, te_SessionID = obs_SessionID ob,
                            te_Type = obs_Type ob, te_Title = obs_Title ob,
                            te_Content = obs_Content ob, te_ToolName = obs_ToolName ob,
                            te_Project = obs_Project ob, te_CreatedAt = obs_CreatedAt ob,
                            te_IsFocus = False\<rparr>)
                 (lastN (nat (if before \<le> 0 then 5 else before))
                    (sort_key obs_ID
                       (filter (\<lambda>ob. obs_SessionID ob = obs_SessionID focus \<and> obs_ID ob < pivot)
                          (observations (db s))))),
               After =
                 map (\<lambda>ob. \<lparr>te_ID = obs_ID ob, te_SessionID = obs_SessionID ob,
                            te_Type = obs_Type ob, te_Title = obs_Title ob,
                            te_Content = obs_Content ob, te_ToolName = obs_ToolName ob,
                            te_Project = obs_Project ob, te_CreatedAt = obs_CreatedAt ob,
                            te_IsFocus = False\<rparr>)
                 (take (nat (if after \<le> 0 then 5 else after))
                    (sort_key obs_ID
                       (filter (\<lambda>ob. obs_SessionID ob = obs_SessionID focus \<and> obs_ID ob > pivot)
                          (observations (db s))))),
               SessionInfo = find (\<lambda>x. sess_ID x = obs_SessionID focus) (sessions (db s)),
               TotalInRange =
                 int (length (filter (\<lambda>ob. obs_SessionID ob = obs_SessionID focus)
                    (observations (db s))))\<rparr>)"
proof -
  have e: "toEntry = (\<lambda>ob. \<lparr>te_ID = obs_ID ob, te_SessionID = obs_SessionID ob,
                            te_Type = obs_Type ob, te_Title = obs_Title ob,
                            te_Content = obs_Content ob, te_ToolName = obs_ToolName ob,
                            te_Project = obs_Project ob, te_CreatedAt = obs_CreatedAt ob,
                            te_IsFocus = False\<rparr>)"
    by (rule ext) (simp add: toEntry_def)
  show ?thesis
    by (rule Timeline_working_engine [of s pivot before after, unfolded e])
qed

theorem Timeline_neighbourhood_witness:
  "Timeline noFaults smallStore 3 1 0 =
     Inr \<lparr>Focus = exampleObs 3,
          Before =
            [\<lparr>te_ID = 2, te_SessionID = ''s2'', te_Type = ''bugfix'', te_Title = ''Fix'',
              te_Content = ''Batch loaded users'', te_ToolName = None,
              te_Project = Some ''acme'', te_CreatedAt = ''2025-01-01 10:00:00'',
              te_IsFocus = False\<rparr>],
          After =
            [\<lparr>te_ID = 4, te_SessionID = ''s2'', te_Type = ''bugfix'', te_Title = ''Fix'',
              te_Content = ''Batch loaded users'', te_ToolName = None,
              te_Project = Some ''acme'', te_CreatedAt = ''2025-01-01 10:00:00'',
              te_IsFocus = False\<rparr>,
             \<lparr>te_ID = 5, te_SessionID = ''s2'', te_Type = ''bugfix'', te_Title = ''Fix'',
              te_Content = ''Batch loaded users'', te_ToolName = None,
              te_Project = Some ''acme'', te_CreatedAt = ''2025-01-01 10:00:00'',
              te_IsFocus = False\<rparr>],
          SessionInfo = Some smallSession, TotalInRange = 5\<rparr>"
  using Timeline_neighbourhood [where s = smallStore and pivot = 3 and before = 1 and after = 0]
  by (simp add: smallStore_def smallSession_def emptyDB_def exampleObs_def lastN_def)

subsection \<open>Sessions\<close>

text \<open>
  Claim C6.  \<^verbatim>\<open>CreateSession\<close> on an id that already has a row leaves the store as it is,
  whatever project and directory it is given, and returns no error unless the engine
  rejects the statement.
\<close>

theorem CreateSession_existing:
  assumes "list_ex (\<lambda>x. sess_ID x = ident) (sessions (db s))"
  shows "CreateSession flt now s ident project directory = (map_option ErrStorage (flt 0), s)"
  using assms
  by (cases "flt 0") (simp_all add: CreateSession_def insertOrIgnoreSession_def)

theorem CreateSession_existing_witness:
  "list_ex (\<lambda>x. sess_ID x = ''s1'') (sessions (db exampleStore)) \<and>
   CreateSession noFaults ''2025-01-02 08:00:00'' exampleStore ''s1'' ''other'' ''/elsewhere'' =
     (None, exampleStore)"
proof -
  have h: "list_ex (\<lambda>x. sess_ID x = ''s1'') (sessions (db exampleStore))"
    by (simp add: exampleStore_def exampleSession_def emptyDB_def)
  from CreateSession_existing [OF h, of noFaults]
  show ?thesis using h by (simp add: noFaults_def)
qed

text \<open>
  Claim C10.  \<^verbatim>\<open>EndSession\<close> changes nothing but the end time and the summary of the
  session rows with the given id: the configuration, the observations, the prompts, the
  sync chunks and both counters stay, every session row keeps its id, project,
  directory and start time, and a row with another id stays as it is.  Without a row
  of the given id the store is unchanged, and no error is returned unless the engine
  rejects the statement.
\<close>

theorem EndSession_frame:
  "case EndSession flt now s ident summary of
     (err, s') \<Rightarrow>
       cfg s' = cfg s \<and>
       observations (db s') = observations (db s) \<and>
       user_prompts (db s') = user_prompts (db s) \<and>
       sync_chunks (db s') = sync_chunks (db s) \<and>
       observations_seq (db s') = observations_seq (db s) \<and>
       user_prompts_seq (db s') = user_prompts_seq (db s) \<and>
       list_all2
         (\<lambda>x x'. sess_ID x' = sess_ID x \<and> sess_Project x' = sess_Project x \<and>
                  sess_Directory x' = sess_Directory x \<and> sess_StartedAt x' = sess_StartedAt x \<and>
                  (sess_ID x \<noteq> ident \<longrightarrow> x' = x))
         (sessions (db s)) (sessions (db s')) \<and>
       (\<not> list_ex (\<lambda>x. sess_ID x = ident) (sessions (db s)) \<longrightarrow>
          s' = s \<and> err = map_option ErrStorage (flt 0))"
proof (cases "flt 0")
  case (Some m)
  then show ?thesis
    by (simp add: EndSession_def list_all2_same)
next
  case None
  have 1: "list_all2
         (\<lambda>x x'. sess_ID x' = sess_ID x \<and> sess_Project x' = sess_Project x \<and>
                  sess_Directory x' = sess_Directory x \<and> sess_StartedAt x' = sess_StartedAt x \<and>
                  (sess_ID x \<noteq> ident \<longrightarrow> x' = x))
         xs (map (\<lambda>x. if sess_ID x = ident
                   then x\<lparr>sess_EndedAt := Some now, sess_Summary := nullableString summary\<rparr> else x) xs)"
    for xs
    by (induction xs) auto
  have 2: "map (\<lambda>x. if sess_ID x = ident
                   then x\<lparr>sess_EndedAt := Some now, sess_Summary := nullableString summary\<rparr> else x) xs = xs"
    if "\<not> list_ex (\<lambda>x. sess_ID x = ident) xs" for xs
    using that by (induction xs) auto
  show ?thesis
    using None 1 [of "sessions (db s)"] 2 [of "sessions (db s)"]
    by (simp add: EndSession_def updateSessionEnd_def)
qed

theorem EndSession_frame_witness:
  "EndSession noFaults ''2025-01-02 08:00:00'' exampleStore ''s1'' ''done'' =
     (None, exampleStore\<lparr>db := (db exampleStore)\<lparr>sessions :=
        [exampleSession\<lparr>sess_EndedAt := Some ''2025-01-02 08:00:00'', sess_Summary := Some ''done''\<rparr>]\<rparr>\<rparr>) \<and>
   EndSession noFaults ''2025-01-02 08:00:00'' exampleStore ''s9'' ''done'' = (None, exampleStore)"
proof -
  have a: "\<not> list_ex (\<lambda>x. sess_ID x = ''s9'') (sessions (db exampleStore))"
    by (simp add: exampleStore_def exampleSession_def emptyDB_def)
  have "EndSession noFaults ''2025-01-02 08:00:00'' exampleStore ''s9'' ''done'' = (None, exampleStore)"
    using EndSession_frame [where flt = noFaults and now = "''2025-01-02 08:00:00''"
        and s = exampleStore and ident = "''s9''" and summary = "''done''"] a
    by (auto simp: noFaults_def split: prod.splits)
  moreover have "EndSession noFaults ''2025-01-02 08:00:00'' exampleStore ''s1'' ''done'' =
     (None, exampleStore\<lparr>db := (db exampleStore)\<lparr>sessions :=
        [exampleSession\<lparr>sess_EndedAt := Some ''2025-01-02 08:00:00'', sess_Summary := Some ''done''\<rparr>]\<rparr>\<rparr>)"
    by (simp add: EndSession_def noFaults_def updateSessionEnd_def nullableString_def
        exampleStore_def exampleSession_def emptyDB_def)
  ultimately show ?thesis by simp
qed

subsection \<open>Search\<close>

text \<open>
  Claim C7.  With a \<^verbatim>\<open>MaxSearchResults\<close> that is not negative (the default is 20),
  \<^verbatim>\<open>Search\<close> fails only when the engine rejects its statement, and otherwise returns at
  most \<^verbatim>\<open>MaxSearchResults\<close> results, and at most the smaller of the requested limit and
  \<^verbatim>\<open>MaxSearchResults\<close> when the requested limit is positive.
\<close>

theorem Search_limit:
  assumes "0 \<le> MaxSearchResults (cfg s)"
  shows "case Search fts flt s query opts of
           Inl e \<Rightarrow> flt 0 \<noteq> None
         | Inr rs \<Rightarrow>
             flt 0 = None \<and> int (length rs) \<le> MaxSearchResults (cfg s) \<and>
             (0 < so_Limit opts \<longrightarrow>
                int (length rs) \<le> min (so_Limit opts) (MaxSearchResults (cfg s)))"
  using assms
  by (cases "flt 0") (auto simp: Search_def Let_def sqlLimit_def)

theorem Search_limit_witness:
  "0 \<le> MaxSearchResults (cfg smallStore) \<and>
   Search exampleFTS noFaults smallStore ''users''
     \<lparr>so_Type = [], so_Project = ''acme'', so_Limit = 50\<rparr> =
     Inr [\<lparr>sr_Observation = exampleObs 1, sr_Rank = 0\<rparr>,
          \<lparr>sr_Observation = exampleObs 2, sr_Rank = 0\<rparr>] \<and>
   int (length [\<lparr>sr_Observation = exampleObs 1, sr_Rank = 0\<rparr>,
          \<lparr>sr_Observation = exampleObs 2, sr_Rank = (0::real)\<rparr>]) \<le> min 50 2"
proof -
  have a: "0 \<le> MaxSearchResults (cfg smallStore)" by (simp add: smallStore_def)
  have b: "Search exampleFTS noFaults smallStore ''users''
     \<lparr>so_Type = [], so_Project = ''acme'', so_Limit = 50\<rparr> =
     Inr [\<lparr>sr_Observation = exampleObs 1, sr_Rank = 0\<rparr>,
          \<lparr>sr_Observation = exampleObs 2, sr_Rank = 0\<rparr>]"
    by (simp add: Search_def smallStore_def exampleFTS_def noFaults_def sqlLimit_def
        orderByAsc_def emptyDB_def exampleObs_def)
  from Search_limit [OF a, where fts = exampleFTS and flt = noFaults and query = "''users''"
      and opts = "\<lparr>so_Type = [], so_Project = ''acme'', so_Limit = 50\<rparr>"] a b
  show ?thesis by (simp add: smallStore_def)
qed

subsection \<open>Context digest\<close>

text \<open>
  Claim C9.  The claim is that \<^verbatim>\<open>FormatContext\<close> returns a digest that is not empty
  whenever a session, a prompt or an observation matches the project.  \<^verbatim>\<open>AddPrompt\<close>
  stores an empty project as NULL, and \<^verbatim>\<open>RecentPrompts\<close> scans the column into a Go
  string: after one \<^verbatim>\<open>CreateSession\<close> and one \<^verbatim>\<open>AddPrompt\<close> without a project,
  \<^verbatim>\<open>FormatContext\<close> with the empty project filter returns the error of the scan, and
  with it the empty string, although a session and a prompt exist.
\<close>

theorem FormatContext_scan_failure:
  "FormatContext noFaults
     (run exampleFTS promptCalls (freshStore (DefaultConfig ''/home/u/.engram''))) [] =
     Inl ErrScanNull \<and>
   length (sessions (db (run exampleFTS promptCalls
     (freshStore (DefaultConfig ''/home/u/.engram''))))) = 1 \<and>
   length (user_prompts (db (run exampleFTS promptCalls
     (freshStore (DefaultConfig ''/home/u/.engram''))))) = 1"
proof -
  have c: "stripPrivateTags ''remember the deploy steps'' = ''remember the deploy steps''"
    by (simp add: redactor_eval)
  have r: "run exampleFTS promptCalls (freshStore (DefaultConfig ''/home/u/.engram'')) =
     \<lparr>db = emptyDB\<lparr>
        sessions := [exampleSession\<lparr>sess_StartedAt := ''2025-01-01 10:00:00''\<rparr>],
        user_prompts :=
          [\<lparr>prow_ID = 1, prow_SessionID = ''s1'', prow_Content = ''remember the deploy steps'',
            prow_Project = None, prow_CreatedAt = ''2025-01-01 10:00:05''\<rparr>],
        user_prompts_seq := 1\<rparr>,
      cfg = DefaultConfig ''/home/u/.engram''\<rparr>"
    by (simp add: promptCalls_def freshStore_def DefaultConfig_def emptyDB_def noFaults_def
        CreateSession_def insertOrIgnoreSession_def ack_def answer_def AddPrompt_def
        examplePromptParams_def c truncateContent_def insertPrompt_def nullableString_def
        exampleSession_def)
  show ?thesis
    unfolding r
    by (simp add: FormatContext_def RecentSessions_def RecentObservations_def RecentPrompts_def
        selectSessionSummaries_def selectRecentObservations_def sqlLimit_def orderByDesc_def
        emptyDB_def exampleSession_def sessionSummary_def DefaultConfig_def scanPrompt_def
        noFaults_def shiftFaults_def stmt_def)
qed

text \<open>Where no selected prompt has a NULL project (always so under a project filter) and
  \<^verbatim>\<open>MaxContextResults\<close> is not zero, the digest is returned, and it is empty exactly when
  no session, observation or prompt matches the filter.\<close>

lemma sqlLimit_Nil_iff: "n \<noteq> 0 \<Longrightarrow> sqlLimit n rows = [] \<longleftrightarrow> rows = []"
  by (auto simp: sqlLimit_def)

lemma orderByDesc_Nil_iff [simp]: "orderByDesc key rows = [] \<longleftrightarrow> rows = []"
proof -
  have "length (orderByDesc key rows) = length rows" by (simp add: orderByDesc_def)
  then show ?thesis by (metis length_0_conv)
qed

lemma scanPrompts_ok:
  "list_all (\<lambda>r. prow_Project r \<noteq> None) rows \<Longrightarrow>
   \<exists>ps. scanPrompts rows = Inr ps \<and> length ps = length rows"
  by (induction rows) (auto simp: scanPrompt_def)

lemma FormatContext_digest:
  assumes "MaxContextResults (cfg s) \<noteq> 0"
    and "project \<noteq> [] \<or> list_all (\<lambda>r. prow_Project r \<noteq> None) (user_prompts (db s))"
  shows "\<exists>d. FormatContext noFaults s project = Inr d \<and>
           (d = [] \<longleftrightarrow>
              filter (\<lambda>x. project = [] \<or> sess_Project x = project) (sessions (db s)) = [] \<and>
              filter (\<lambda>ob. project = [] \<or> obs_Project ob = Some project)
                (observations (db s)) = [] \<and>
              filter (\<lambda>r. project = [] \<or> prow_Project r = Some project)
                (user_prompts (db s)) = [])"
proof -
  let ?S = "filter (\<lambda>x. project = [] \<or> sess_Project x = project) (sessions (db s))"
  let ?O = "filter (\<lambda>ob. project = [] \<or> obs_Project ob = Some project) (observations (db s))"
  let ?P = "filter (\<lambda>r. project = [] \<or> prow_Project r = Some project) (user_prompts (db s))"
  let ?rows = "sqlLimit 10 (orderByDesc prow_CreatedAt ?P)"
  have r1: "RecentSessions noFaults s project 5 = Inr (selectSessionSummaries (db s) project 5)"
    by (simp add: RecentSessions_def)
  have e1: "selectSessionSummaries (db s) project 5 = [] \<longleftrightarrow> ?S = []"
    by (simp add: selectSessionSummaries_def sqlLimit_Nil_iff)
  have r2: "RecentObservations noFaults s project (MaxContextResults (cfg s)) =
      Inr (selectRecentObservations (db s) project (MaxContextResults (cfg s)))"
    by (simp add: RecentObservations_def)
  have e2: "selectRecentObservations (db s) project (MaxContextResults (cfg s)) = [] \<longleftrightarrow> ?O = []"
    using assms(1) by (simp add: selectRecentObservations_def sqlLimit_Nil_iff)
  have "set ?rows \<subseteq> set ?P" using set_sqlLimit by fastforce
  with assms(2) have "list_all (\<lambda>r. prow_Project r \<noteq> None) ?rows"
    by (auto simp: list_all_iff)
  then obtain ps where ps: "scanPrompts ?rows = Inr ps" "length ps = length ?rows"
    using scanPrompts_ok by blast
  then have r3: "RecentPrompts noFaults s project 10 = Inr ps"
    by (simp add: RecentPrompts_def noFaults_def)
  have e3: "ps = [] \<longleftrightarrow> ?P = []"
    using ps(2) sqlLimit_Nil_iff [of 10 "orderByDesc prow_CreatedAt ?P"] by auto
  show ?thesis
    unfolding FormatContext_def r1 shiftFaults_noFaults r2 r3
    using e1 e2 e3 by simp
qed

end
